theory Spec2Isabelle
  imports Complex_Main
begin

section \<open>Kernel Polynomial Method: the array model\<close>

text \<open>
  The sources are \<^verbatim>\<open>emate/hermitian/cupyops/kpm.py\<close> (the moment engine
  \<^verbatim>\<open>get_moments\<close> and the reconstruction \<^verbatim>\<open>apply_kernel\<close>) and
  \<^verbatim>\<open>emate/hermitian/kpm.py\<close> (\<^verbatim>\<open>rescale_kpm\<close>, \<^verbatim>\<open>pykpm\<close>, \<^verbatim>\<open>cupykpm\<close>).

  Numbers: in the first model a \<^verbatim>\<open>complex64\<close> or \<^verbatim>\<open>float\<close> array entry is an exact
  complex or real number; it is the model of the algebra of the method. HOL's
  \<open>x / 0 = 0\<close> is not what the array library computes (it yields \<^verbatim>\<open>inf\<close> or \<^verbatim>\<open>nan\<close>), so
  statements of this model that divide carry a nonzero divisor as a hypothesis.
  Where a statement depends on rounding, overflow or a division by zero, the nodes,
  the weights and the rescaling are modelled a second time over binary64 numbers. The \<^verbatim>\<open>uint\<close> parameters of the docstrings are \<open>nat\<close>; \<^verbatim>\<open>extra_points\<close>,
  which the specification lets be negative, is \<open>int\<close>.

  Arrays: a one-dimensional array is a list, a two-dimensional array the list of its
  rows (all of one length). A matrix is the list of its rows; the sparse storage of
  the source is not modelled, only the linear map it denotes.

  Errors: an exception of the array library is a value \<open>Inl e\<close>.
\<close>

datatype error = ValueError | IndexError

type_synonym cvec = "complex list"
type_synonym cmat = "complex list list"

definition ebind :: "error + 'a \<Rightarrow> ('a \<Rightarrow> error + 'b) \<Rightarrow> error + 'b" where
  "ebind m f = (case m of Inl e \<Rightarrow> Inl e | Inr x \<Rightarrow> f x)"

text \<open>\<^verbatim>\<open>H.dot(v)\<close> for a matrix and a one-dimensional array: the number of columns
  must be the length of \<open>v\<close>, else \<^verbatim>\<open>ValueError\<close> (dimension mismatch).\<close>

definition row_times :: "complex list \<Rightarrow> cvec \<Rightarrow> complex" where
  "row_times r v = sum_list (map2 (*) r v)"

definition mat_dot :: "cmat \<Rightarrow> cvec \<Rightarrow> error + cvec" where
  "mat_dot H v =
     (if list_all (\<lambda>r. length r = length v) H
      then Inr (map (\<lambda>r. row_times r v) H)
      else Inl ValueError)"

text \<open>\<^verbatim>\<open>(u.T.conj()).dot(v)\<close> for one-dimensional arrays: the transpose of a
  one-dimensional array is the array itself, the entries are conjugated, and the
  inner product needs equal lengths.\<close>

definition conj_dot :: "cvec \<Rightarrow> cvec \<Rightarrow> error + complex" where
  "conj_dot u v =
     (if length u = length v
      then Inr (sum_list (map2 (*) (map cnj u) v))
      else Inl ValueError)"

text \<open>An elementwise binary operation on one-dimensional arrays, with the
  broadcasting rule: equal lengths, or one operand of length one.\<close>

definition broadcast2 :: "('a \<Rightarrow> 'b \<Rightarrow> 'c) \<Rightarrow> 'a list \<Rightarrow> 'b list \<Rightarrow> error + 'c list" where
  "broadcast2 f xs ys =
     (if length xs = length ys then Inr (map2 f xs ys)
      else if length xs = 1 then Inr (map (f (hd xs)) ys)
      else if length ys = 1 then Inr (map (\<lambda>x. f x (hd ys)) xs)
      else Inl ValueError)"

text \<open>\<^verbatim>\<open>mu[i] = v\<close> with a nonnegative index: \<^verbatim>\<open>IndexError\<close> out of range.\<close>

definition set_item :: "'a list \<Rightarrow> nat \<Rightarrow> 'a \<Rightarrow> error + 'a list" where
  "set_item xs i v = (if i < length xs then Inr (xs[i := v]) else Inl IndexError)"

section \<open>The moment engine\<close>

text \<open>
  One pass of the loop of \<^verbatim>\<open>get_moments\<close> for each \<^verbatim>\<open>i_moment\<close> of the range; the
  state is \<open>(alpha0, alpha1, mu)\<close>.
  \<^verbatim>\<open>
    for i_moment in range(1, num_moments//2):
        alpha2 = 2*H_rescaled.dot(alpha1)-alpha0
        mu[2*i_moment] = 2*(alpha1.T.conj()).dot(alpha1) - mu[0]
        mu[2*i_moment+1] = 2*(alpha2.T.conj()).dot(alpha1) - mu[1]
        alpha0 = alpha1
        alpha1 = alpha2
  \<close>
\<close>

fun moments_loop :: "cmat \<Rightarrow> nat list \<Rightarrow> cvec \<times> cvec \<times> cvec \<Rightarrow> error + cvec \<times> cvec \<times> cvec" where
  "moments_loop H [] s = Inr s"
| "moments_loop H (i # is) (alpha0, alpha1, mu) =
     ebind (mat_dot H alpha1) (\<lambda>h1.
     ebind (broadcast2 (-) (map ((*) 2) h1) alpha0) (\<lambda>alpha2.
     ebind (conj_dot alpha1 alpha1) (\<lambda>d11.
     ebind (set_item mu (2 * i) (2 * d11 - mu ! 0)) (\<lambda>mu1.
     ebind (conj_dot alpha2 alpha1) (\<lambda>d21.
     ebind (set_item mu1 (2 * i + 1) (2 * d21 - mu1 ! 1)) (\<lambda>mu2.
     moments_loop H is (alpha1, alpha2, mu2)))))))"

text \<open>
  The body of \<^verbatim>\<open>get_moments\<close> after the probe \<open>alpha0\<close> has been drawn:
  \<^verbatim>\<open>
    alpha1 = H_rescaled.dot(alpha0)
    mu = cp.zeros(num_moments, dtype=cp_complex)
    mu[0] = (alpha0.T.conj()).dot(alpha0)
    mu[1] = (alpha0.T.conj()).dot(alpha1)
    for ...
    return mu
  \<close>
\<close>

definition get_moments_probe :: "cmat \<Rightarrow> nat \<Rightarrow> cvec \<Rightarrow> error + cvec" where
  "get_moments_probe H_rescaled num_moments alpha0 =
     ebind (mat_dot H_rescaled alpha0) (\<lambda>alpha1.
     ebind (conj_dot alpha0 alpha0) (\<lambda>d00.
     ebind (set_item (replicate num_moments 0) 0 d00) (\<lambda>mu0.
     ebind (conj_dot alpha0 alpha1) (\<lambda>d01.
     ebind (set_item mu0 1 d01) (\<lambda>mu1.
     ebind (moments_loop H_rescaled [1..<num_moments div 2] (alpha0, alpha1, mu1))
       (\<lambda>(a0, a1, mu). Inr mu))))))"

text \<open>
  \<^verbatim>\<open>alpha0 = cp.exp(1j*2*cp.pi*cp.random.rand(dimension))\<close>: the draw of
  \<^verbatim>\<open>cp.random.rand\<close> is the argument \<open>rand\<close>, entry \<open>k\<close> of the drawn array being
  \<open>rand k\<close>; \<open>exp (\<i> t) = cis t\<close>.
\<close>

definition random_phase_probe :: "nat \<Rightarrow> (nat \<Rightarrow> real) \<Rightarrow> cvec" where
  "random_phase_probe dimension rand = map (\<lambda>k. cis (2 * pi * rand k)) [0..<dimension]"

definition get_moments :: "(nat \<Rightarrow> real) \<Rightarrow> cmat \<Rightarrow> nat \<Rightarrow> nat \<Rightarrow> error + cvec" where
  "get_moments rand H_rescaled num_moments dimension =
     get_moments_probe H_rescaled num_moments (random_phase_probe dimension rand)"


section \<open>The kernel and reconstruction engine\<close>

text \<open>\<^verbatim>\<open>cp.sum(a, axis=0)\<close> of a two-dimensional array given by its rows. The list
  comprehension of \<^verbatim>\<open>cupykpm\<close> builds the batch; for no rows at all the array has
  shape \<open>(0,)\<close> and its sum is the scalar zero, which broadcasts as an array of
  length one does.\<close>

definition sum_axis0 :: "real list list \<Rightarrow> real list" where
  "sum_axis0 rows = (case rows of [] \<Rightarrow> [0] | r # rs \<Rightarrow> foldl (\<lambda>acc row. map2 (+) acc row) r rs)"

text \<open>\<^verbatim>\<open>cp.zeros(n)\<close>: a negative size is a \<^verbatim>\<open>ValueError\<close>.\<close>

definition zeros :: "int \<Rightarrow> error + real list" where
  "zeros n = (if n < 0 then Inl ValueError else Inr (replicate (nat n) 0))"

text \<open>\<^verbatim>\<open>xs[0:stop] = vs\<close>: the slice has \<open>min stop (length xs)\<close> entries, and \<open>vs\<close>
  must have as many, or one (it is broadcast), else \<^verbatim>\<open>ValueError\<close>.\<close>

definition set_slice :: "real list \<Rightarrow> nat \<Rightarrow> real list \<Rightarrow> error + real list" where
  "set_slice xs stop vs =
     (let m = min stop (length xs) in
      if length vs = m then Inr (vs @ drop m xs)
      else if length vs = 1 then Inr (replicate m (hd vs) @ drop m xs)
      else Inl ValueError)"

text \<open>\<^verbatim>\<open>points = cp.arange(0, num_points)\<close>,
  \<^verbatim>\<open>ek = cp.cos(cp.pi*(points+0.5)/num_points)\<close> and
  \<^verbatim>\<open>gk = cp.pi*cp.sqrt(1.-ek**2)\<close>.\<close>

definition arange :: "int \<Rightarrow> real list" where
  "arange num_points = map real [0..<nat num_points]"

definition ek_nodes :: "int \<Rightarrow> real list" where
  "ek_nodes num_points =
     map (\<lambda>p. cos (pi * (p + 0.5) / real_of_int num_points)) (arange num_points)"

definition gk_weights :: "real list \<Rightarrow> real list" where
  "gk_weights ek = map (\<lambda>e. pi * sqrt (1 - e ^ 2)) ek"

text \<open>
  \<^verbatim>\<open>apply_kernel\<close>. The transform \<^verbatim>\<open>dctIII\<close> of \<^verbatim>\<open>emate.utils.cupyops.signal\<close> is not
  among the sources and is the first argument; the argument \<^verbatim>\<open>kernel\<close> is \<open>kern\<close>,
  \<open>None\<close> or an array.
  \<^verbatim>\<open>
    moments = cp.sum(moments.real, axis=0)
    moments = moments/num_vecs/dimension
    num_points = extra_points+num_moments
    if kernel is not None:
        moments = moments*kernel
    mu_ext = cp.zeros(num_points)
    mu_ext[0:num_moments] = moments
    smooth_moments = dctIII(mu_ext)
    points = cp.arange(0, num_points)
    ek = cp.cos(cp.pi*(points+0.5)/num_points)
    gk = cp.pi*cp.sqrt(1.-ek**2)
    rho = cp.divide(smooth_moments, gk)
    return ek, rho
  \<close>
\<close>

definition apply_kernel ::
  "(real list \<Rightarrow> real list) \<Rightarrow> complex list list \<Rightarrow> real list option \<Rightarrow> nat \<Rightarrow> nat \<Rightarrow> nat \<Rightarrow> int
     \<Rightarrow> error + real list \<times> real list" where
  "apply_kernel dct moments kern dimension num_moments num_vecs extra_points =
     (let moments1 = sum_axis0 (map (map Re) moments);
          moments2 = map (\<lambda>m. m / real num_vecs / real dimension) moments1;
          num_points = extra_points + int num_moments
      in
      ebind (case kern of None \<Rightarrow> Inr moments2 | Some w \<Rightarrow> broadcast2 (*) moments2 w) (\<lambda>moments3.
      ebind (zeros num_points) (\<lambda>mu_ext0.
      ebind (set_slice mu_ext0 num_moments moments3) (\<lambda>mu_ext.
      (let smooth_moments = dct mu_ext;
           ek = ek_nodes num_points;
           gk = gk_weights ek
       in ebind (broadcast2 (/) smooth_moments gk) (\<lambda>rho. Inr (ek, rho)))))))"

section \<open>The rescaling inverse\<close>

text \<open>
  \<^verbatim>\<open>
    def rescale_kpm(ek, rho, scale_fact_a, scale_fact_b):
        ek = ek*scale_fact_a + scale_fact_b
        rho = rho/scale_fact_a
        return ek, rho
  \<close>
  The scale factors are scalars, the other two arguments arrays.
\<close>

definition rescale_kpm :: "real list \<Rightarrow> real list \<Rightarrow> real \<Rightarrow> real \<Rightarrow> real list \<times> real list" where
  "rescale_kpm ek rho scale_fact_a scale_fact_b =
     (let ek1 = map (\<lambda>e. e * scale_fact_a + scale_fact_b) ek;
          rho1 = map (\<lambda>r. r / scale_fact_a) rho
      in (ek1, rho1))"

section \<open>The pipelines\<close>

text \<open>
  The modules \<^verbatim>\<open>emate.linalg.misc\<close>, \<^verbatim>\<open>emate.utils\<close> and
  \<^verbatim>\<open>emate.hermitian.tfops.kpm\<close> are not among the sources. What the pipelines call
  from them is a field of one of the records below, so every statement about a
  pipeline holds for whatever these functions compute. \<open>'m\<close> is the type of the
  moment tensor of the graph backend. A cast to a floating-point type
  (\<^verbatim>\<open>astype\<close>, \<^verbatim>\<open>np.array(..., dtype=...)\<close>) rounds; it is the argument \<open>cast\<close> of
  the pipelines.
\<close>

datatype dtype = Float32 | Float64 | Complex64 | Complex128

record scipy_matrix =
  data_is_complex :: bool
  entries :: cmat

record linalg =
  get_bounds :: "scipy_matrix \<Rightarrow> real \<times> real"
  rescale_matrix :: "scipy_matrix \<Rightarrow> real \<Rightarrow> real \<Rightarrow> scipy_matrix \<times> real \<times> real"
  rescale_cupy :: "cmat \<Rightarrow> real \<Rightarrow> real \<Rightarrow> real \<Rightarrow> cmat \<times> real \<times> real"

record 'm tfops =
  normal_complex :: "nat \<times> nat \<Rightarrow> nat \<Rightarrow> cmat"
  tf_jackson :: "nat \<Rightarrow> nat \<Rightarrow> real list"
  tf_get_moments :: "cmat \<Rightarrow> nat \<Rightarrow> nat \<Rightarrow> cmat \<Rightarrow> error + 'm"
  tf_cast_float32 :: "'m \<Rightarrow> 'm"
  tf_apply_kernel :: "'m \<Rightarrow> real list \<Rightarrow> nat \<Rightarrow> nat \<Rightarrow> nat \<Rightarrow> int \<Rightarrow> error + real list \<times> real list"

record cupyutils =
  cupy_jackson :: "nat \<Rightarrow> nat \<Rightarrow> real list"
  dctIII :: "real list \<Rightarrow> real list"

text \<open>\<^verbatim>\<open>if (lmin is None) or (lmax is None): lmin, lmax = get_bounds(H)\<close>\<close>

definition bounds_or_given :: "linalg \<Rightarrow> scipy_matrix \<Rightarrow> real option \<Rightarrow> real option \<Rightarrow> real \<times> real" where
  "bounds_or_given la H lmin lmax =
     (case (lmin, lmax) of (Some l, Some u) \<Rightarrow> (l, u) | _ \<Rightarrow> get_bounds la H)"

text \<open>
  \<^verbatim>\<open>pykpm\<close> (also exported as \<^verbatim>\<open>tfkpm\<close>). The graph is built and then run by the
  session; the model computes the values the session returns. The call
  \<^verbatim>\<open>rescale_matrix(H, lmin, lmax,)\<close> has three arguments. \<^verbatim>\<open>device\<close> and
  \<^verbatim>\<open>swap_memory_while\<close> place the computation and do not enter the values.
  \<^verbatim>\<open>
    H, scale_fact_a, scale_fact_b = rescale_matrix(H, lmin, lmax,)
    coo = H.tocoo()
    if np.iscomplexobj(coo.data):
        if precision == 32: np_type = np.complex64 ... else: np_type = np.complex128
    else:
        if precision == 32: np_type = np.float32 ... else: np_type = np.float64
    sp_values = np.array(coo.data, dtype=np_type)
    dimension = H.shape[0]
    alpha0 = normal_complex(shape=(dimension, num_vecs), precision=precision)
    moments = get_moments(H, num_vecs, num_moments, alpha0)
    kernel0 = tf_jackson(num_moments, precision=32)
    if precision == 64:
        moments = tf.cast(moments, tf.float32)
    ek, rho = apply_kernel(moments, kernel0, dimension, num_moments, num_vecs, extra_points)
    ek, rho = rescale_kpm(ek, rho, scale_fact_a, scale_fact_b)
    return ek, rho
  \<close>
\<close>

definition pykpm ::
  "linalg \<Rightarrow> 'm tfops \<Rightarrow> (dtype \<Rightarrow> complex \<Rightarrow> complex) \<Rightarrow> scipy_matrix \<Rightarrow> nat \<Rightarrow> nat \<Rightarrow> int \<Rightarrow> nat
     \<Rightarrow> real option \<Rightarrow> real option \<Rightarrow> real \<Rightarrow> string \<Rightarrow> bool \<Rightarrow> error + real list \<times> real list" where
  "pykpm la tf cast H num_moments num_vecs extra_points precision lmin lmax epsilon device swap_memory_while =
     (let (lmin1, lmax1) = bounds_or_given la H lmin lmax;
          (H1, scale_fact_a, scale_fact_b) = rescale_matrix la H lmin1 lmax1;
          np_type = (if data_is_complex H1
                     then (if precision = 32 then Complex64 else Complex128)
                     else (if precision = 32 then Float32 else Float64));
          sp_values = map (map (cast np_type)) (entries H1);
          dimension = length (entries H1);
          alpha0 = normal_complex tf (dimension, num_vecs) precision
      in
      ebind (tf_get_moments tf sp_values num_vecs num_moments alpha0) (\<lambda>moments.
      (let kernel0 = tf_jackson tf num_moments 32;
           moments1 = (if precision = 64 then tf_cast_float32 tf moments else moments)
       in
       ebind (tf_apply_kernel tf moments1 kernel0 dimension num_moments num_vecs extra_points)
         (\<lambda>(ek, rho).
       (let (ek1, rho1) = rescale_kpm ek rho scale_fact_a scale_fact_b
        in Inr (ek1, rho1))))))"

text \<open>The list comprehension of \<^verbatim>\<open>cupykpm\<close> evaluates its calls in order; the first
  exception ends it.\<close>

fun collect :: "(error + 'a) list \<Rightarrow> error + 'a list" where
  "collect [] = Inr []"
| "collect (r # rs) = ebind r (\<lambda>x. ebind (collect rs) (\<lambda>xs. Inr (x # xs)))"

text \<open>
  \<^verbatim>\<open>cupykpm\<close>. Call \<open>i\<close> of \<^verbatim>\<open>get_moments\<close> draws \<open>rand i\<close>.
  \<^verbatim>\<open>
    dimension = H.shape[0]
    if (lmin is None) or (lmax is None):
        lmin, lmax = get_bounds(H)
    H = cp.sparse.csr_matrix((cp.array(H.data.astype("complex64")), ...), shape=H.shape, dtype="complex64")
    H, scale_fact_a, scale_fact_b = rescale_cupy(H, lmin, lmax, epsilon)
    moments = cp.array([cupyops.get_moments(H, num_moments, dimension) for i in range(num_vecs)])
    kernel0 = cupy_jackson(num_moments, precision=32)
    ek, rho = cupyops.apply_kernel(moments, kernel0, dimension, num_moments, num_vecs, extra_points)
    ek, rho = rescale_kpm(ek, rho, scale_fact_a, scale_fact_b)
    return rho, ek
  \<close>
\<close>

definition cupykpm ::
  "linalg \<Rightarrow> cupyutils \<Rightarrow> (dtype \<Rightarrow> complex \<Rightarrow> complex) \<Rightarrow> (nat \<Rightarrow> nat \<Rightarrow> real) \<Rightarrow> scipy_matrix
     \<Rightarrow> nat \<Rightarrow> nat \<Rightarrow> int \<Rightarrow> nat \<Rightarrow> real option \<Rightarrow> real option \<Rightarrow> real
     \<Rightarrow> error + real list \<times> real list" where
  "cupykpm la cu cast rand H num_moments num_vecs extra_points precision lmin lmax epsilon =
     (let dimension = length (entries H);
          (lmin1, lmax1) = bounds_or_given la H lmin lmax;
          H1 = map (map (cast Complex64)) (entries H);
          (H2, scale_fact_a, scale_fact_b) = rescale_cupy la H1 lmin1 lmax1 epsilon
      in
      ebind (collect (map (\<lambda>i. get_moments (rand i) H2 num_moments dimension) [0..<num_vecs]))
        (\<lambda>moments.
      (let kernel0 = cupy_jackson cu num_moments 32
       in
       ebind (apply_kernel (dctIII cu) moments (Some kernel0) dimension num_moments num_vecs extra_points)
         (\<lambda>(ek, rho).
       (let (ek1, rho1) = rescale_kpm ek rho scale_fact_a scale_fact_b
        in Inr (rho1, ek1))))))"

section \<open>What the specification compares the code with\<close>

text \<open>The total counterparts of the array operations, for arguments of matching
  shapes: the matrix-vector product, the inner product \<open>conj(u)\<cdot>v\<close>, and
  \<open>2w - z\<close>.\<close>

definition mat_vec :: "cmat \<Rightarrow> cvec \<Rightarrow> cvec" where
  "mat_vec H v = map (\<lambda>r. row_times r v) H"

definition inner :: "cvec \<Rightarrow> cvec \<Rightarrow> complex" where
  "inner u v = sum_list (map2 (*) (map cnj u) v)"

definition two_minus :: "cvec \<Rightarrow> cvec \<Rightarrow> cvec" where
  "two_minus w z = map2 (-) (map ((*) 2) w) z"

text \<open>An \<open>n \<times> n\<close> matrix, and a Hermitian one: square and equal to its conjugate
  transpose.\<close>

definition square :: "nat \<Rightarrow> cmat \<Rightarrow> bool" where
  "square n H = (length H = n \<and> list_all (\<lambda>r. length r = n) H)"

definition hermitian :: "cmat \<Rightarrow> bool" where
  "hermitian H =
     (square (length H) H \<and>
      list_all (\<lambda>i. list_all (\<lambda>j. H ! i ! j = cnj (H ! j ! i)) [0..<length H]) [0..<length H])"

text \<open>The Chebyshev polynomials of a square matrix, \<open>T\<^sub>0 = I\<close>, \<open>T\<^sub>1 = H\<close>,
  \<open>T\<^bsub>k+2\<^esub> = 2 H T\<^bsub>k+1\<^esub> - T\<^sub>k\<close>, as matrices, and the direct evaluation
  \<open>conj(x)\<cdot>T\<^sub>k(H)\<cdot>x\<close> of moment \<open>k\<close>.\<close>

definition column :: "cmat \<Rightarrow> nat \<Rightarrow> cvec" where
  "column B j = map (\<lambda>row. row ! j) B"

definition mat_mul :: "cmat \<Rightarrow> cmat \<Rightarrow> cmat" where
  "mat_mul A B = map (\<lambda>r. map (\<lambda>j. row_times r (column B j)) [0..<length B]) A"

definition identity_mat :: "nat \<Rightarrow> cmat" where
  "identity_mat n = map (\<lambda>i. map (\<lambda>j. if i = j then 1 else 0) [0..<n]) [0..<n]"

fun cheb_mat :: "cmat \<Rightarrow> nat \<Rightarrow> cmat" where
  "cheb_mat H 0 = identity_mat (length H)"
| "cheb_mat H (Suc 0) = H"
| "cheb_mat H (Suc (Suc k)) = map2 two_minus (mat_mul H (cheb_mat H (Suc k))) (cheb_mat H k)"

definition direct_moment :: "cmat \<Rightarrow> cvec \<Rightarrow> nat \<Rightarrow> complex" where
  "direct_moment H x k = inner x (mat_vec (cheb_mat H k) x)"

text \<open>The vectors \<open>T\<^sub>k(H) x\<close> by the three-term recursion on vectors; the loop of
  \<^verbatim>\<open>get_moments\<close> holds two consecutive ones.\<close>

fun cheb_vec :: "cmat \<Rightarrow> cvec \<Rightarrow> nat \<Rightarrow> cvec" where
  "cheb_vec H x 0 = x"
| "cheb_vec H x (Suc 0) = mat_vec H x"
| "cheb_vec H x (Suc (Suc k)) = two_minus (mat_vec H (cheb_vec H x (Suc k))) (cheb_vec H x k)"

definition dist_nat :: "nat \<Rightarrow> nat \<Rightarrow> nat" where
  "dist_nat m n = (if n \<le> m then m - n else n - m)"

text \<open>The squared norm of a probe.\<close>

definition norm_sq :: "cvec \<Rightarrow> real" where
  "norm_sq x = (\<Sum>a\<leftarrow>x. (cmod a) ^ 2)"

text \<open>
  The reconstruction as the specification words it, step by step: average the real
  parts over probes and dimension, damp by the kernel if there is one, pad with
  zeros to \<open>num_points = num_moments + extra_points\<close>, transform, and divide by the
  weight \<open>\<pi> sqrt (1 - ek[j]\<^sup>2)\<close> at the node \<open>ek[j] = cos (\<pi> (j + 1/2) / num_points)\<close>.
\<close>

definition spec_reconstruct ::
  "(real list \<Rightarrow> real list) \<Rightarrow> complex list list \<Rightarrow> real list option \<Rightarrow> nat \<Rightarrow> nat \<Rightarrow> nat \<Rightarrow> nat
     \<Rightarrow> real list \<times> real list" where
  "spec_reconstruct dct moments kern dimension num_moments num_probes extra_points =
     (let num_points = num_moments + extra_points;
          averaged = map (\<lambda>k. (\<Sum>row\<leftarrow>moments. Re (row ! k)) / real num_probes / real dimension)
                       [0..<num_moments];
          damped = (case kern of None \<Rightarrow> averaged
                    | Some w \<Rightarrow> map (\<lambda>k. averaged ! k * w ! k) [0..<num_moments]);
          padded = damped @ replicate extra_points 0;
          smooth_moments = dct padded;
          ek = map (\<lambda>j. cos (pi * (real j + 1 / 2) / real num_points)) [0..<num_points];
          rho = map (\<lambda>j. smooth_moments ! j / (pi * sqrt (1 - (ek ! j) ^ 2))) [0..<num_points]
      in (ek, rho))"

text \<open>The forward affine rescaling of the abscissas, \<open>(ek - scale_b) / scale_a\<close>, which
  the specification composes with \<^verbatim>\<open>rescale_kpm\<close>.\<close>

definition rescale_abscissas :: "real list \<Rightarrow> real \<Rightarrow> real \<Rightarrow> real list" where
  "rescale_abscissas ek scale_a scale_b = map (\<lambda>e. (e - scale_b) / scale_a) ek"

section \<open>Floating point: the binary64 arithmetic of the arrays\<close>

text \<open>
  The arrays of \<^verbatim>\<open>apply_kernel\<close> and \<^verbatim>\<open>rescale_kpm\<close> hold IEEE binary64 numbers. Where a
  statement depends on rounding, on overflow or on a division by zero, the code is
  modelled over the values below: a finite number, the two infinities, and NaN. The
  two zeros of IEEE are one value here, so a nonzero number divided by zero takes
  the sign of the dividend.

  \<open>round64\<close> rounds a real number to the nearest binary64 number, ties to even: with
  \<open>e\<close> the binary exponent (at least \<open>-1022\<close>, below that the numbers are subnormal),
  the spacing is \<open>2\<^bsup>e-52\<^esup>\<close>, and a result of magnitude \<open>2\<^bsup>1024\<^esup>\<close> or more overflows to
  an infinity.
\<close>

datatype f64 = Fin real | PInf | NInf | NaN

definition round_even :: "real \<Rightarrow> int" where
  "round_even x =
     (let f = \<lfloor>x\<rfloor>; d = x - of_int f in
      if d < 1 / 2 then f else if 1 / 2 < d then f + 1 else if even f then f else f + 1)"

definition round64 :: "real \<Rightarrow> f64" where
  "round64 r =
     (if r = 0 then Fin 0
      else (let e = max \<lfloor>log 2 \<bar>r\<bar>\<rfloor> (- 1022);
                q = 2 powi (e - 52);
                y = of_int (round_even (\<bar>r\<bar> / q)) * q
            in if 2 ^ 1024 \<le> y then (if 0 < r then PInf else NInf) else Fin (sgn r * y)))"

text \<open>The operations: the exact result, rounded; the rules of IEEE for infinities
  and NaN. \<^verbatim>\<open>cos\<close> and \<^verbatim>\<open>sqrt\<close> of the library are taken as correctly rounded.\<close>

fun is_finite :: "f64 \<Rightarrow> bool" where
  "is_finite (Fin a) = True"
| "is_finite x = False"

fun fneg :: "f64 \<Rightarrow> f64" where
  "fneg (Fin a) = Fin (- a)"
| "fneg PInf = NInf"
| "fneg NInf = PInf"
| "fneg NaN = NaN"

fun fadd :: "f64 \<Rightarrow> f64 \<Rightarrow> f64" where
  "fadd (Fin a) (Fin b) = round64 (a + b)"
| "fadd NaN y = NaN"
| "fadd x NaN = NaN"
| "fadd PInf NInf = NaN"
| "fadd NInf PInf = NaN"
| "fadd PInf y = PInf"
| "fadd NInf y = NInf"
| "fadd (Fin a) y = y"

definition fsub :: "f64 \<Rightarrow> f64 \<Rightarrow> f64" where
  "fsub x y = fadd x (fneg y)"

fun fmul :: "f64 \<Rightarrow> f64 \<Rightarrow> f64" where
  "fmul (Fin a) (Fin b) = round64 (a * b)"
| "fmul NaN y = NaN"
| "fmul x NaN = NaN"
| "fmul (Fin a) y = (if a = 0 then NaN else if 0 < a then y else fneg y)"
| "fmul x (Fin b) = (if b = 0 then NaN else if 0 < b then x else fneg x)"
| "fmul PInf y = y"
| "fmul NInf y = fneg y"

fun fdiv :: "f64 \<Rightarrow> f64 \<Rightarrow> f64" where
  "fdiv (Fin a) (Fin b) =
     (if b = 0 then (if a = 0 then NaN else if 0 < a then PInf else NInf) else round64 (a / b))"
| "fdiv NaN y = NaN"
| "fdiv x NaN = NaN"
| "fdiv (Fin a) y = Fin 0"
| "fdiv x (Fin b) = (if 0 \<le> b then x else fneg x)"
| "fdiv x y = NaN"




text \<open>\<^verbatim>\<open>rescale_kpm\<close> on binary64 arrays and scalars:
  \<^verbatim>\<open>ek = ek*scale_fact_a + scale_fact_b\<close>, \<^verbatim>\<open>rho = rho/scale_fact_a\<close>.\<close>

definition rescale_kpm_f64 :: "f64 list \<Rightarrow> f64 list \<Rightarrow> f64 \<Rightarrow> f64 \<Rightarrow> f64 list \<times> f64 list" where
  "rescale_kpm_f64 ek rho scale_fact_a scale_fact_b =
     (let ek1 = map (\<lambda>e. fadd (fmul e scale_fact_a) scale_fact_b) ek;
          rho1 = map (\<lambda>r. fdiv r scale_fact_a) rho
      in (ek1, rho1))"

text \<open>The forward rescaling \<open>(ek - scale_b) / scale_a\<close> of the specification, on
  binary64 numbers.\<close>

definition rescale_abscissas_f64 :: "f64 list \<Rightarrow> f64 \<Rightarrow> f64 \<Rightarrow> f64 list" where
  "rescale_abscissas_f64 ek scale_a scale_b = map (\<lambda>e. fdiv (fsub e scale_b) scale_a) ek"



section \<open>Instances of the collaborators, for running the pipeline on examples\<close>

text \<open>
  Modelled from the spec: \<^verbatim>\<open>rescale_cupy\<close> of \<^verbatim>\<open>emate.linalg.misc\<close>, which is not among
  the sources. The specification gives the affine map \<open>H' = (H - b I) / a\<close> with
  \<open>scale_a = (lmax - lmin) / (2 - epsilon)\<close> and \<open>scale_b = (lmax + lmin) / 2\<close>.
\<close>

definition spec_rescale :: "cmat \<Rightarrow> real \<Rightarrow> real \<Rightarrow> real \<Rightarrow> cmat \<times> real \<times> real" where
  "spec_rescale H lmin lmax epsilon =
     (let scale_a = (lmax - lmin) / (2 - epsilon);
          scale_b = (lmax + lmin) / 2
      in (map (\<lambda>i. map (\<lambda>j. (H ! i ! j - (if i = j then of_real scale_b else 0)) / of_real scale_a)
                     [0..<length (H ! i)]) [0..<length H],
          scale_a, scale_b))"

text \<open>A transform and a kernel to run examples with: the unnormalised DCT-III,
  \<open>y\<^sub>j = x\<^sub>0 + 2 \<Sum>\<^bsub>k=1\<^esub>\<^bsup>N-1\<^esup> x\<^sub>k cos (\<pi> k (j + 1/2) / N)\<close>, and the kernel of ones (no damping).
  The theorems about the pipelines do not depend on them.\<close>

definition dct3_example :: "real list \<Rightarrow> real list" where
  "dct3_example xs =
     map (\<lambda>j. xs ! 0 + 2 * (\<Sum>k\<leftarrow>[1..<length xs]. xs ! k * cos (pi * real k * (real j + 1 / 2) / real (length xs))))
       [0..<length xs]"

definition example_linalg :: linalg where
  "example_linalg =
     \<lparr>get_bounds = (\<lambda>H. (- 1, 1)),
      rescale_matrix = (\<lambda>H lmin lmax. (H, (lmax - lmin) / 2, (lmax + lmin) / 2)),
      rescale_cupy = spec_rescale\<rparr>"

definition example_cupyutils :: cupyutils where
  "example_cupyutils = \<lparr>cupy_jackson = (\<lambda>n precision. replicate n 1), dctIII = dct3_example\<rparr>"

section \<open>Linear algebra on lists\<close>

lemma square_row: "square n H \<Longrightarrow> i < n \<Longrightarrow> length (H ! i) = n"
  by (simp add: square_def list_all_length)

lemma hermitian_entry:
  assumes "hermitian H" "i < length H" "j < length H"
  shows "cnj (H ! i ! j) = H ! j ! i"
proof -
  have all: "\<forall>a\<in>set [0..<length H]. \<forall>b\<in>set [0..<length H]. H ! a ! b = cnj (H ! b ! a)"
    using assms(1) unfolding hermitian_def list_all_iff by blast
  have "j \<in> set [0..<length H]" "i \<in> set [0..<length H]"
    using assms(2,3) by simp_all
  with all have "H ! j ! i = cnj (H ! i ! j)" by blast
  then show ?thesis by simp
qed

lemma length_mat_vec [simp]: "length (mat_vec H v) = length H"
  by (simp add: mat_vec_def)

lemma length_two_minus [simp]: "length (two_minus w z) = min (length w) (length z)"
  by (simp add: two_minus_def)

lemma length_cheb_vec: "length H = n \<Longrightarrow> length x = n \<Longrightarrow> length (cheb_vec H x k) = n"
  by (induction H x k rule: cheb_vec.induct) simp_all

lemma sum_list_map2_sum:
  "length xs = length ys \<Longrightarrow> sum_list (map2 f xs ys) = (\<Sum>i<length xs. f (xs ! i) (ys ! i))"
proof -
  assume l: "length xs = length ys"
  have "sum_list (map2 f xs ys) = (\<Sum>i = 0..<length (map2 f xs ys). map2 f xs ys ! i)"
    by (rule sum_list_sum_nth)
  also have "\<dots> = (\<Sum>i = 0..<length xs. f (xs ! i) (ys ! i))"
    using l by (intro sum.cong) simp_all
  finally show ?thesis by (simp add: atLeast0LessThan)
qed

lemma inner_sum: "length u = length v \<Longrightarrow> inner u v = (\<Sum>i<length u. cnj (u ! i) * v ! i)"
proof -
  assume l: "length u = length v"
  have "inner u v = (\<Sum>i<length (map cnj u). (map cnj u ! i) * v ! i)"
    unfolding inner_def using l by (intro sum_list_map2_sum) simp
  then show ?thesis by simp
qed

lemma row_times_sum: "length r = length v \<Longrightarrow> row_times r v = (\<Sum>j<length v. r ! j * v ! j)"
  unfolding row_times_def by (simp add: sum_list_map2_sum)

lemma mat_vec_nth: "i < length H \<Longrightarrow> mat_vec H v ! i = row_times (H ! i) v"
  by (simp add: mat_vec_def)

lemma mat_vec_self_adjoint:
  assumes h: "hermitian H" and n: "length H = n" and u: "length u = n" and v: "length v = n"
  shows "inner (mat_vec H u) v = inner u (mat_vec H v)"
proof -
  have sq: "square n H" using h n by (simp add: hermitian_def)
  have "inner (mat_vec H u) v = (\<Sum>i<n. cnj (mat_vec H u ! i) * v ! i)"
    using n v by (simp add: inner_sum)
  also have "\<dots> = (\<Sum>i<n. cnj (\<Sum>j<n. H ! i ! j * u ! j) * v ! i)"
    using n u sq by (intro sum.cong refl) (simp add: mat_vec_nth row_times_sum square_row)
  also have "\<dots> = (\<Sum>i<n. \<Sum>j<n. cnj (H ! i ! j) * cnj (u ! j) * v ! i)"
    by (simp add: sum_distrib_right)
  also have "\<dots> = (\<Sum>i<n. \<Sum>j<n. H ! j ! i * cnj (u ! j) * v ! i)"
    using hermitian_entry [OF h] n by (intro sum.cong refl) simp
  also have "\<dots> = (\<Sum>j<n. \<Sum>i<n. H ! j ! i * cnj (u ! j) * v ! i)"
    by (rule sum.swap)
  also have "\<dots> = (\<Sum>j<n. cnj (u ! j) * (\<Sum>i<n. H ! j ! i * v ! i))"
    by (simp add: sum_distrib_left mult_ac)
  also have "\<dots> = (\<Sum>j<n. cnj (u ! j) * mat_vec H v ! j)"
    using n v sq by (intro sum.cong refl) (simp add: mat_vec_nth row_times_sum square_row)
  also have "\<dots> = inner u (mat_vec H v)"
    using n u by (simp add: inner_sum)
  finally show ?thesis .
qed

lemma two_minus_nth: "i < length w \<Longrightarrow> i < length z \<Longrightarrow> two_minus w z ! i = 2 * w ! i - z ! i"
  by (simp add: two_minus_def)

lemma inner_two_minus_right:
  assumes "length w = length u" "length z = length u"
  shows "inner u (two_minus w z) = 2 * inner u w - inner u z"
proof -
  have "inner u (two_minus w z) = (\<Sum>i<length u. cnj (u ! i) * (2 * w ! i - z ! i))"
    using assms by (simp add: inner_sum two_minus_nth)
  also have "\<dots> = 2 * (\<Sum>i<length u. cnj (u ! i) * w ! i) - (\<Sum>i<length u. cnj (u ! i) * z ! i)"
    by (simp add: sum_subtractf sum_distrib_left algebra_simps)
  finally show ?thesis using assms by (simp add: inner_sum)
qed

lemma inner_two_minus_left:
  assumes "length w = length u" "length z = length u"
  shows "inner (two_minus w z) u = 2 * inner w u - inner z u"
proof -
  have "inner (two_minus w z) u = (\<Sum>i<length u. cnj (2 * w ! i - z ! i) * u ! i)"
    using assms by (simp add: inner_sum two_minus_nth)
  also have "\<dots> = 2 * (\<Sum>i<length u. cnj (w ! i) * u ! i) - (\<Sum>i<length u. cnj (z ! i) * u ! i)"
    by (simp add: sum_subtractf sum_distrib_left algebra_simps)
  finally show ?thesis using assms by (simp add: inner_sum)
qed

lemma cheb_product:
  assumes h: "hermitian H" and n: "length H = n" and x: "length x = n"
  shows "2 * inner (cheb_vec H x m) (cheb_vec H x k) =
         inner x (cheb_vec H x (m + k)) + inner x (cheb_vec H x (dist_nat m k))"
proof -
  let ?t = "cheb_vec H x"
  let ?f = "\<lambda>k. inner x (?t k)"
  have len: "\<And>k. length (?t k) = n" using n x by (simp add: length_cheb_vec)
  have adj: "\<And>u v. length u = n \<Longrightarrow> length v = n \<Longrightarrow> inner (mat_vec H u) v = inner u (mat_vec H v)"
    using mat_vec_self_adjoint [OF h n] by blast
  have step: "2 * inner u (mat_vec H (?t (Suc k))) = inner u (?t (Suc (Suc k))) + inner u (?t k)"
    if "length u = n" for u k
    using that len n by (simp add: inner_two_minus_right)
  have "\<forall>k. (2 * inner (?t m) (?t k) = ?f (m + k) + ?f (dist_nat m k)) \<and>
             (2 * inner (?t (Suc m)) (?t k) = ?f (Suc m + k) + ?f (dist_nat (Suc m) k))"
  proof (induction m)
    case 0
    have one: "2 * inner (?t (Suc 0)) (?t k) = ?f (Suc k) + ?f (dist_nat (Suc 0) k)" for k
    proof (cases k)
      case 0
      have "inner (mat_vec H x) x = inner x (mat_vec H x)" using adj x by simp
      then show ?thesis using 0 by (simp add: dist_nat_def)
    next
      case (Suc j)
      have "inner (mat_vec H x) (?t (Suc j)) = inner x (mat_vec H (?t (Suc j)))"
        using adj x len by simp
      then show ?thesis using Suc step [of x j] x by (simp add: dist_nat_def)
    qed
    show ?case using one by (simp add: dist_nat_def)
  next
    case (Suc m)
    have two: "2 * inner (?t (Suc (Suc m))) (?t k) = ?f (Suc (Suc m) + k) + ?f (dist_nat (Suc (Suc m)) k)" for k
    proof -
      have e: "inner (?t (Suc (Suc m))) (?t k) =
               2 * inner (?t (Suc m)) (mat_vec H (?t k)) - inner (?t m) (?t k)"
        using len n adj [of "?t (Suc m)" "?t k"] by (simp add: inner_two_minus_left)
      show ?thesis
      proof (cases k)
        case 0
        have i1: "2 * inner (?t (Suc m)) (?t (Suc 0)) = ?f (Suc m + Suc 0) + ?f (dist_nat (Suc m) (Suc 0))"
          using Suc.IH by blast
        have i2: "2 * inner (?t m) (?t 0) = ?f (m + 0) + ?f (dist_nat m 0)"
          using Suc.IH by blast
        have "2 * inner (?t (Suc (Suc m))) (?t 0) =
              2 * (2 * inner (?t (Suc m)) (?t (Suc 0))) - 2 * inner (?t m) (?t 0)"
          using e [unfolded 0] by (simp del: cheb_vec.simps(3))
        also have "\<dots> = 2 * ?f (Suc (Suc m))"
          unfolding i1 i2 by (simp add: dist_nat_def del: cheb_vec.simps)
        finally show ?thesis using 0 by (simp add: dist_nat_def del: cheb_vec.simps)
      next
        case (Suc j)
        have s: "2 * inner (?t (Suc m)) (mat_vec H (?t (Suc j))) =
                 inner (?t (Suc m)) (?t (Suc (Suc j))) + inner (?t (Suc m)) (?t j)"
          using step [of "?t (Suc m)" j] len by simp
        have i1: "2 * inner (?t (Suc m)) (?t (Suc (Suc j))) = ?f (Suc m + Suc (Suc j)) + ?f (dist_nat (Suc m) (Suc (Suc j)))"
          using Suc.IH by blast
        have i2: "2 * inner (?t (Suc m)) (?t j) = ?f (Suc m + j) + ?f (dist_nat (Suc m) j)"
          using Suc.IH by blast
        have i3: "2 * inner (?t m) (?t (Suc j)) = ?f (m + Suc j) + ?f (dist_nat m (Suc j))"
          using Suc.IH by blast
        have d1: "dist_nat (Suc m) (Suc (Suc j)) = dist_nat m (Suc j)" by (simp add: dist_nat_def)
        have d2: "dist_nat (Suc m) j = dist_nat (Suc (Suc m)) (Suc j)" by (simp add: dist_nat_def)
        have "2 * inner (?t (Suc (Suc m))) (?t (Suc j)) =
              2 * (2 * inner (?t (Suc m)) (mat_vec H (?t (Suc j)))) - 2 * inner (?t m) (?t (Suc j))"
          using e [unfolded Suc] by (simp del: cheb_vec.simps)
        also have "\<dots> =
              2 * inner (?t (Suc m)) (?t (Suc (Suc j))) + 2 * inner (?t (Suc m)) (?t j) - 2 * inner (?t m) (?t (Suc j))"
          unfolding s by (simp del: cheb_vec.simps)
        also have "\<dots> = ?f (Suc (Suc m) + Suc j) + ?f (dist_nat (Suc (Suc m)) (Suc j))"
          unfolding i1 i2 i3 d1 d2 by simp
        finally show ?thesis using Suc by simp
      qed
    qed
    show ?case using Suc.IH two by blast
  qed
  then show ?thesis by blast
qed

section \<open>Running the loop of the moment engine\<close>

lemma mat_dot_square:
  "square n H \<Longrightarrow> length v = n \<Longrightarrow> mat_dot H v = Inr (mat_vec H v)"
  by (simp add: mat_dot_def mat_vec_def square_def)

lemma conj_dot_inner: "length u = length v \<Longrightarrow> conj_dot u v = Inr (inner u v)"
  by (simp add: conj_dot_def inner_def)

lemma broadcast2_same: "length xs = length ys \<Longrightarrow> broadcast2 f xs ys = Inr (map2 f xs ys)"
  by (simp add: broadcast2_def)

lemma ebind_Inr [simp]: "ebind (Inr x) f = f x"
  by (simp add: ebind_def)

lemma ebind_Inl [simp]: "ebind (Inl e) f = Inl e"
  by (simp add: ebind_def)

lemma moments_loop_step:
  assumes sq: "square n H" and a0: "length a0 = n" and a1: "length a1 = n"
    and mu: "2 * i + 1 < length mu"
  shows "moments_loop H (i # js) (a0, a1, mu) =
         moments_loop H js (a1, two_minus (mat_vec H a1) a0,
           mu[2 * i := 2 * inner a1 a1 - mu ! 0,
              2 * i + 1 := 2 * inner (two_minus (mat_vec H a1) a0) a1 - (mu[2 * i := 2 * inner a1 a1 - mu ! 0]) ! 1])"
proof -
  have n: "length H = n" using sq by (simp add: square_def)
  have d: "mat_dot H a1 = Inr (mat_vec H a1)" using sq a1 by (rule mat_dot_square)
  have b: "broadcast2 (-) (map ((*) 2) (mat_vec H a1)) a0 = Inr (two_minus (mat_vec H a1) a0)"
    using a0 n by (simp add: broadcast2_same two_minus_def)
  have c1: "conj_dot a1 a1 = Inr (inner a1 a1)" by (simp add: conj_dot_inner)
  have c2: "conj_dot (two_minus (mat_vec H a1) a0) a1 = Inr (inner (two_minus (mat_vec H a1) a0) a1)"
    using a0 a1 n by (simp add: conj_dot_inner)
  have s1: "set_item mu (2 * i) v = Inr (mu[2 * i := v])" for v
    using mu by (simp add: set_item_def)
  have s2: "set_item (mu[2 * i := v]) (2 * i + 1) w = Inr (mu[2 * i := v, 2 * i + 1 := w])" for v w
    using mu by (simp add: set_item_def)
  show ?thesis
    by (simp only: moments_loop.simps d b c1 c2 s1 s2 ebind_Inr)
qed

lemma moments_loop_run:
  assumes sq: "square n H" and x: "length x = n"
  shows "1 \<le> i \<Longrightarrow> i \<le> h \<Longrightarrow> 2 * h \<le> length mu \<Longrightarrow>
         \<exists>mu'. moments_loop H [i..<h] (cheb_vec H x (i - 1), cheb_vec H x i, mu) =
                  Inr (cheb_vec H x (h - 1), cheb_vec H x h, mu') \<and>
               length mu' = length mu \<and>
               (\<forall>k. k < 2 * i \<or> 2 * h \<le> k \<longrightarrow> mu' ! k = mu ! k) \<and>
               (\<forall>j. i \<le> j \<and> j < h \<longrightarrow>
                    mu' ! (2 * j) = 2 * inner (cheb_vec H x j) (cheb_vec H x j) - mu ! 0 \<and>
                    mu' ! (2 * j + 1) = 2 * inner (cheb_vec H x (j + 1)) (cheb_vec H x j) - mu ! 1)"
proof (induction "h - i" arbitrary: i mu)
  case 0
  then have "i = h" by simp
  then show ?case by auto
next
  case (Suc d)
  let ?t = "cheb_vec H x"
  have n: "length H = n" using sq by (simp add: square_def)
  have len: "\<And>k. length (?t k) = n" using n x by (simp add: length_cheb_vec)
  from Suc.hyps(2) have ih: "i < h" by simp
  obtain i' where i': "i = Suc i'" using Suc.prems(1) by (cases i) simp_all
  have next_vec: "two_minus (mat_vec H (?t i)) (?t (i - 1)) = ?t (Suc i)"
    using i' by simp
  define A where "A = 2 * inner (?t i) (?t i) - mu ! 0"
  define mu1 where "mu1 = mu[2 * i := A]"
  define B where "B = 2 * inner (?t (Suc i)) (?t i) - mu1 ! 1"
  define mu2 where "mu2 = mu1[2 * i + 1 := B]"
  have inb: "2 * i + 1 < length mu" using ih Suc.prems(3) by simp
  have step: "moments_loop H (i # [Suc i..<h]) (?t (i - 1), ?t i, mu) =
              moments_loop H [Suc i..<h] (?t i, ?t (Suc i), mu2)"
    using moments_loop_step [OF sq, of "?t (i - 1)" "?t i" i mu "[Suc i..<h]"] len inb
    unfolding next_vec A_def mu1_def B_def mu2_def by (simp del: cheb_vec.simps)
  have l2: "length mu2 = length mu" by (simp add: mu2_def mu1_def)
  have m0: "mu2 ! 0 = mu ! 0" using i' by (simp add: mu2_def mu1_def)
  have m1: "mu1 ! 1 = mu ! 1" using i' by (simp add: mu1_def)
  have m1': "mu2 ! 1 = mu ! 1" using i' m1 by (simp add: mu2_def)
  have "Suc d = h - i" using Suc.hyps(2) .
  then have dd: "d = h - Suc i" by simp
  from Suc.hyps(1) [OF dd, of mu2] ih Suc.prems(3) l2
  obtain mu' where run: "moments_loop H [Suc i..<h] (?t i, ?t (Suc i), mu2) = Inr (?t (h - 1), ?t h, mu')"
    and lm: "length mu' = length mu2"
    and keep: "\<forall>k. k < 2 * Suc i \<or> 2 * h \<le> k \<longrightarrow> mu' ! k = mu2 ! k"
    and vals: "\<forall>j. Suc i \<le> j \<and> j < h \<longrightarrow>
                 mu' ! (2 * j) = 2 * inner (?t j) (?t j) - mu2 ! 0 \<and>
                 mu' ! (2 * j + 1) = 2 * inner (?t (j + 1)) (?t j) - mu2 ! 1"
    by auto
  have upt: "[i..<h] = i # [Suc i..<h]" using ih by (simp add: upt_conv_Cons)
  have r: "moments_loop H [i..<h] (?t (i - 1), ?t i, mu) = Inr (?t (h - 1), ?t h, mu')"
    unfolding upt step run ..
  have k1: "mu' ! k = mu ! k" if "k < 2 * i \<or> 2 * h \<le> k" for k
  proof -
    have "mu' ! k = mu2 ! k" using keep that by auto
    also have "\<dots> = mu ! k" using that ih by (auto simp: mu2_def mu1_def)
    finally show ?thesis .
  qed
  have v_i: "mu' ! (2 * i) = A \<and> mu' ! (2 * i + 1) = B"
  proof -
    have "mu' ! (2 * i) = mu2 ! (2 * i)" "mu' ! (2 * i + 1) = mu2 ! (2 * i + 1)"
      using keep by simp_all
    then show ?thesis using inb by (simp add: mu2_def mu1_def)
  qed
  have k2: "mu' ! (2 * j) = 2 * inner (?t j) (?t j) - mu ! 0 \<and>
            mu' ! (2 * j + 1) = 2 * inner (?t (j + 1)) (?t j) - mu ! 1"
    if "i \<le> j \<and> j < h" for j
  proof (cases "j = i")
    case True
    then show ?thesis using v_i m1 by (simp add: A_def B_def del: cheb_vec.simps)
  next
    case False
    then have "Suc i \<le> j \<and> j < h" using that by simp
    then show ?thesis using vals m0 m1' by (simp del: cheb_vec.simps)
  qed
  show ?case using r lm l2 k1 k2 by (intro exI [of _ mu']) (simp del: cheb_vec.simps)
qed

section \<open>Matrix polynomials and the run of the whole engine\<close>

lemma square_length: "square n H \<Longrightarrow> length H = n"
  by (simp add: square_def)

lemma squareI: "length A = n \<Longrightarrow> (\<And>i. i < n \<Longrightarrow> length (A ! i) = n) \<Longrightarrow> square n A"
  by (simp add: square_def list_all_length)

lemma mat_vec_identity:
  assumes "length x = n"
  shows "mat_vec (identity_mat n) x = x"
proof (rule nth_equalityI)
  show "length (mat_vec (identity_mat n) x) = length x"
    using assms by (simp add: identity_mat_def)
next
  fix i assume "i < length (mat_vec (identity_mat n) x)"
  then have i: "i < n" by (simp add: identity_mat_def)
  have "mat_vec (identity_mat n) x ! i = row_times (map (\<lambda>j. if i = j then 1 else 0) [0..<n]) x"
    using i by (simp add: mat_vec_def identity_mat_def)
  also have "\<dots> = (\<Sum>j<n. (if i = j then 1 else 0) * x ! j)"
    using assms by (simp add: row_times_sum)
  also have "\<dots> = (\<Sum>j<n. if i = j then x ! j else 0)"
    by (intro sum.cong refl) simp
  also have "\<dots> = x ! i"
    using i by simp
  finally show "mat_vec (identity_mat n) x ! i = x ! i" .
qed

lemma square_identity: "square n (identity_mat n)"
  by (rule squareI) (simp_all add: identity_mat_def)

lemma square_mat_mul: "square n A \<Longrightarrow> square n B \<Longrightarrow> square n (mat_mul A B)"
  by (rule squareI) (simp_all add: mat_mul_def square_def)

lemma square_two_minus:
  assumes "square n A" "square n B"
  shows "square n (map2 two_minus A B)"
proof (rule squareI)
  show "length (map2 two_minus A B) = n"
    using assms by (simp add: square_def)
next
  fix i assume "i < n"
  then show "length (map2 two_minus A B ! i) = n"
    using assms by (simp add: square_length square_row)
qed

lemma square_cheb_mat: "square n H \<Longrightarrow> square n (cheb_mat H k)"
proof (induction H k rule: cheb_mat.induct)
  case (1 H)
  then show ?case by (simp add: square_length square_identity)
next
  case (2 H)
  then show ?case by simp
next
  case (3 H k)
  then show ?case by (simp add: square_mat_mul square_two_minus)
qed

lemma mat_vec_mat_mul:
  assumes A: "square n A" and B: "square n B" and x: "length x = n"
  shows "mat_vec (mat_mul A B) x = mat_vec A (mat_vec B x)"
proof (rule nth_equalityI)
  show "length (mat_vec (mat_mul A B) x) = length (mat_vec A (mat_vec B x))"
    by (simp add: mat_mul_def)
next
  fix i assume "i < length (mat_vec (mat_mul A B) x)"
  then have i: "i < n" using A by (simp add: mat_mul_def square_length)
  have la: "length A = n" and lb: "length B = n"
    using A B by (simp_all add: square_length)
  have ra: "length (A ! i) = n" using A i by (rule square_row)
  have col: "row_times (A ! i) (column B j) = (\<Sum>k<n. A ! i ! k * B ! k ! j)" for j
    using ra lb by (simp add: row_times_sum column_def)
  have "mat_vec (mat_mul A B) x ! i =
        row_times (map (\<lambda>j. row_times (A ! i) (column B j)) [0..<n]) x"
    using i la lb by (simp add: mat_vec_def mat_mul_def)
  also have "\<dots> = (\<Sum>j<n. row_times (A ! i) (column B j) * x ! j)"
    using x by (simp add: row_times_sum)
  also have "\<dots> = (\<Sum>j<n. \<Sum>k<n. A ! i ! k * B ! k ! j * x ! j)"
    by (simp add: col sum_distrib_right)
  also have "\<dots> = (\<Sum>k<n. \<Sum>j<n. A ! i ! k * B ! k ! j * x ! j)"
    by (rule sum.swap)
  also have "\<dots> = (\<Sum>k<n. A ! i ! k * (\<Sum>j<n. B ! k ! j * x ! j))"
    by (simp add: sum_distrib_left mult.assoc)
  also have "\<dots> = (\<Sum>k<n. A ! i ! k * mat_vec B x ! k)"
    using B x lb by (intro sum.cong refl) (simp add: mat_vec_nth row_times_sum square_row)
  also have "\<dots> = row_times (A ! i) (mat_vec B x)"
    using ra lb by (simp add: row_times_sum)
  also have "\<dots> = mat_vec A (mat_vec B x) ! i"
    using i la by (simp add: mat_vec_nth)
  finally show "mat_vec (mat_mul A B) x ! i = mat_vec A (mat_vec B x) ! i" .
qed

lemma mat_vec_two_minus:
  assumes A: "square n A" and B: "square n B" and x: "length x = n"
  shows "mat_vec (map2 two_minus A B) x = two_minus (mat_vec A x) (mat_vec B x)"
proof (rule nth_equalityI)
  show "length (mat_vec (map2 two_minus A B) x) = length (two_minus (mat_vec A x) (mat_vec B x))"
    by simp
next
  fix i assume "i < length (mat_vec (map2 two_minus A B) x)"
  then have i: "i < n" using A by (simp add: square_length)
  have la: "length A = n" and lb: "length B = n"
    using A B by (simp_all add: square_length)
  have ra: "length (A ! i) = n" and rb: "length (B ! i) = n"
    using A B i by (simp_all add: square_row)
  have "mat_vec (map2 two_minus A B) x ! i = row_times (two_minus (A ! i) (B ! i)) x"
    using i la lb by (simp add: mat_vec_def)
  also have "\<dots> = (\<Sum>j<n. (2 * A ! i ! j - B ! i ! j) * x ! j)"
    using ra rb x by (simp add: row_times_sum two_minus_nth)
  also have "\<dots> = 2 * (\<Sum>j<n. A ! i ! j * x ! j) - (\<Sum>j<n. B ! i ! j * x ! j)"
    by (simp add: sum_subtractf sum_distrib_left algebra_simps)
  also have "\<dots> = 2 * mat_vec A x ! i - mat_vec B x ! i"
    using i la lb ra rb x by (simp add: mat_vec_nth row_times_sum)
  also have "\<dots> = two_minus (mat_vec A x) (mat_vec B x) ! i"
    using i la lb by (simp add: two_minus_nth)
  finally show "mat_vec (map2 two_minus A B) x ! i = two_minus (mat_vec A x) (mat_vec B x) ! i" .
qed

lemma mat_vec_cheb_mat:
  assumes sq: "square n H" and x: "length x = n"
  shows "mat_vec (cheb_mat H k) x = cheb_vec H x k"
proof (induction k rule: less_induct)
  case (less k)
  show ?case
  proof (cases k)
    case 0
    then show ?thesis using sq x by (simp add: square_length mat_vec_identity)
  next
    case (Suc k1)
    show ?thesis
    proof (cases k1)
      case 0
      then show ?thesis using Suc by simp
    next
      case (Suc k2)
      have k: "k = Suc (Suc k2)" using \<open>k = Suc k1\<close> Suc by simp
      have i1: "mat_vec (cheb_mat H (Suc k2)) x = cheb_vec H x (Suc k2)"
        using less k by simp
      have i2: "mat_vec (cheb_mat H k2) x = cheb_vec H x k2"
        using less k by simp
      have "mat_vec (cheb_mat H (Suc (Suc k2))) x =
            two_minus (mat_vec (mat_mul H (cheb_mat H (Suc k2))) x) (mat_vec (cheb_mat H k2) x)"
        using mat_vec_two_minus [OF square_mat_mul [OF sq square_cheb_mat [OF sq]] square_cheb_mat [OF sq] x]
        by simp
      also have "\<dots> = two_minus (mat_vec H (mat_vec (cheb_mat H (Suc k2)) x)) (mat_vec (cheb_mat H k2) x)"
        using mat_vec_mat_mul [OF sq square_cheb_mat [OF sq] x] by simp
      also have "\<dots> = cheb_vec H x (Suc (Suc k2))"
        unfolding i1 i2 by simp
      finally show ?thesis using k by simp
    qed
  qed
qed

lemma direct_moment_cheb_vec:
  "square n H \<Longrightarrow> length x = n \<Longrightarrow> direct_moment H x k = inner x (cheb_vec H x k)"
  by (simp add: direct_moment_def mat_vec_cheb_mat)

lemma inner_cnj: "length u = length v \<Longrightarrow> cnj (inner u v) = inner v u"
  by (simp add: inner_sum mult.commute)

lemma inner_self: "inner x x = of_real (norm_sq x)"
proof -
  have e: "cnj z * z = of_real ((cmod z) ^ 2)" for z :: complex
    using complex_norm_square [of z] by (simp only: mult.commute [of "cnj z" z])
  have "inner x x = (\<Sum>i<length x. cnj (x ! i) * x ! i)"
    by (simp add: inner_sum)
  also have "\<dots> = (\<Sum>i<length x. of_real ((cmod (x ! i)) ^ 2))"
    by (simp only: e)
  also have "\<dots> = of_real (\<Sum>i<length x. (cmod (x ! i)) ^ 2)"
    by simp
  also have "(\<Sum>i<length x. (cmod (x ! i)) ^ 2) = norm_sq x"
    unfolding norm_sq_def by (simp add: sum_list_sum_nth atLeast0LessThan)
  finally show ?thesis .
qed

lemma inner_hermitian_real:
  assumes h: "hermitian H" and x: "length x = length H"
  shows "inner x (mat_vec H x) = of_real (Re (inner x (mat_vec H x)))"
proof -
  have "cnj (inner x (mat_vec H x)) = inner (mat_vec H x) x"
    using x by (simp add: inner_cnj)
  also have "\<dots> = inner x (mat_vec H x)"
    using mat_vec_self_adjoint [OF h refl x x] .
  finally have "inner x (mat_vec H x) \<in> \<real>"
    by (simp add: Reals_cnj_iff)
  then show ?thesis by simp
qed

lemma get_moments_probe_run:
  assumes sq: "square n H" and x: "length x = n" and N: "2 \<le> N"
  shows "\<exists>mu. get_moments_probe H N x = Inr mu \<and> length mu = N \<and>
           mu ! 0 = inner x x \<and> mu ! 1 = inner x (mat_vec H x) \<and>
           (\<forall>j. 1 \<le> j \<and> j < N div 2 \<longrightarrow>
              mu ! (2 * j) = 2 * inner (cheb_vec H x j) (cheb_vec H x j) - inner x x \<and>
              mu ! (2 * j + 1) =
                2 * inner (cheb_vec H x (j + 1)) (cheb_vec H x j) - inner x (mat_vec H x)) \<and>
           (\<forall>k. 2 * (N div 2) \<le> k \<and> k < N \<longrightarrow> mu ! k = 0)"
proof -
  have n: "length H = n" using sq by (rule square_length)
  define mu1 where "mu1 = (replicate N (0::complex))[0 := inner x x, 1 := inner x (mat_vec H x)]"
  have l1: "length mu1 = N" by (simp add: mu1_def)
  have m0: "mu1 ! 0 = inner x x" using N by (simp add: mu1_def)
  have m1: "mu1 ! 1 = inner x (mat_vec H x)" using N by (simp add: mu1_def)
  have mz: "mu1 ! k = 0" if "2 \<le> k" "k < N" for k
    using that by (simp add: mu1_def)
  have h: "1 \<le> N div 2" "2 * (N div 2) \<le> length mu1" using N l1 by simp_all
  have start: "get_moments_probe H N x =
               ebind (moments_loop H [1..<N div 2] (cheb_vec H x (1 - 1), cheb_vec H x 1, mu1))
                 (\<lambda>(a0, a1, mu). Inr mu)"
    using sq x n N
    by (simp add: get_moments_probe_def mat_dot_square conj_dot_inner set_item_def mu1_def)
  from moments_loop_run [OF sq x, of 1 "N div 2" mu1] h
  obtain mu where run: "moments_loop H [1..<N div 2] (cheb_vec H x (1 - 1), cheb_vec H x 1, mu1) =
                        Inr (cheb_vec H x (N div 2 - 1), cheb_vec H x (N div 2), mu)"
    and lm: "length mu = length mu1"
    and keep: "\<forall>k. k < 2 * 1 \<or> 2 * (N div 2) \<le> k \<longrightarrow> mu ! k = mu1 ! k"
    and vals: "\<forall>j. 1 \<le> j \<and> j < N div 2 \<longrightarrow>
                 mu ! (2 * j) = 2 * inner (cheb_vec H x j) (cheb_vec H x j) - mu1 ! 0 \<and>
                 mu ! (2 * j + 1) = 2 * inner (cheb_vec H x (j + 1)) (cheb_vec H x j) - mu1 ! 1"
    by blast
  have r: "get_moments_probe H N x = Inr mu"
    unfolding start run by simp
  have k0: "mu ! 0 = inner x x" using keep m0 by simp
  have k1: "mu ! 1 = inner x (mat_vec H x)" using keep m1 by simp
  have kz: "mu ! k = 0" if "2 * (N div 2) \<le> k \<and> k < N" for k
  proof -
    have "mu ! k = mu1 ! k" using keep that by blast
    moreover have "2 \<le> k" using that h(1) by linarith
    ultimately show ?thesis using mz that by simp
  qed
  show ?thesis
    using r lm l1 k0 k1 kz vals m0 m1
    by (intro exI [of _ mu]) (simp del: cheb_vec.simps)
qed

section \<open>The moment engine: results\<close>

text \<open>
  C10. When \<open>num_moments\<close> is odd and at least 3, \<^verbatim>\<open>get_moments\<close> (square matrix, probe
  of matching length, given or drawn) returns a sequence of \<open>num_moments\<close> entries whose last entry
  \<open>mu[num_moments-1]\<close> is zero: every index \<open>i\<close> of the loop range
  \<open>range(1, num_moments//2)\<close> writes \<open>2i\<close> and \<open>2i+1\<close>, at most \<open>num_moments-2\<close>, so the last
  slot keeps the zero of its initialisation.
\<close>

theorem get_moments_odd_last_zero:
  assumes "square n H" and "length x = n" and "odd N" and "3 \<le> N"
  shows "(\<exists>mu. get_moments_probe H N x = Inr mu \<and> length mu = N \<and> mu ! (N - 1) = 0) \<and>
         (\<exists>mu. get_moments rand H N n = Inr mu \<and> length mu = N \<and> mu ! (N - 1) = 0) \<and>
         list_all (\<lambda>i. 2 * i + 1 \<le> N - 2) [1..<N div 2]"
proof -
  have N2: "2 \<le> N" using assms(4) by simp
  have last: "\<exists>mu. get_moments_probe H N y = Inr mu \<and> length mu = N \<and> mu ! (N - 1) = 0"
    if y: "length y = n" for y
  proof -
    from get_moments_probe_run [OF assms(1) y N2]
    obtain mu where r: "get_moments_probe H N y = Inr mu" and l: "length mu = N"
      and z: "\<forall>k. 2 * (N div 2) \<le> k \<and> k < N \<longrightarrow> mu ! k = 0"
      by blast
    have "2 * (N div 2) \<le> N - 1 \<and> N - 1 < N" using assms(3,4) by presburger
    then have "mu ! (N - 1) = 0" using z by blast
    then show ?thesis using r l by blast
  qed
  have "length (random_phase_probe n rand) = n" by (simp add: random_phase_probe_def)
  then have "\<exists>mu. get_moments rand H N n = Inr mu \<and> length mu = N \<and> mu ! (N - 1) = 0"
    unfolding get_moments_def by (rule last)
  moreover have "list_all (\<lambda>i. 2 * i + 1 \<le> N - 2) [1..<N div 2]"
    unfolding list_all_iff using assms(3,4) by (auto elim!: oddE)
  ultimately show ?thesis using last [OF assms(2)] by blast
qed

theorem get_moments_odd_last_zero_witness:
  "square 1 [[0]] \<and> length [1 :: complex] = 1 \<and> odd (5 :: nat) \<and> (3 :: nat) \<le> 5 \<and>
   (\<exists>mu. get_moments_probe [[0]] 5 [1] = Inr mu \<and> length mu = 5 \<and> mu ! (5 - 1) = 0) \<and>
   (\<exists>mu. get_moments (\<lambda>k. 0) [[0]] 5 1 = Inr mu \<and> length mu = 5 \<and> mu ! (5 - 1) = 0) \<and>
   list_all (\<lambda>i. 2 * i + 1 \<le> (5 :: nat) - 2) [1..<5 div 2]"
proof -
  have h: "square 1 [[0]]" "length [1 :: complex] = 1" "odd (5 :: nat)" "(3 :: nat) \<le> 5"
    by (simp_all add: square_def)
  from get_moments_odd_last_zero [OF h, of "\<lambda>k. 0"] h show ?thesis by blast
qed

text \<open>
  C6. For \<open>num_moments = 2\<close>, a Hermitian matrix and a probe of matching length, the
  moment engine returns moment 0 equal to the squared norm of the probe and moment 1
  equal to \<open>Re (conj(x)\<cdot>H\<cdot>x)\<close>; the loop range \<open>range(1, 1)\<close> is empty, so the loop
  leaves every state as it is.
\<close>

theorem get_moments_base_case:
  assumes "hermitian H" and "length x = length H"
  shows "get_moments_probe H 2 x =
           Inr [of_real (norm_sq x), of_real (Re (inner x (mat_vec H x)))] \<and>
         [1..<2 div 2] = ([] :: nat list) \<and>
         moments_loop H [1..<2 div 2] s = Inr s"
proof -
  have sq: "square (length H) H" using assms(1) by (simp add: hermitian_def)
  from get_moments_probe_run [OF sq assms(2), of 2]
  obtain mu where r: "get_moments_probe H 2 x = Inr mu" and l: "length mu = 2"
    and m0: "mu ! 0 = inner x x" and m1: "mu ! 1 = inner x (mat_vec H x)"
    by auto
  have "mu = [mu ! 0, mu ! 1]"
    using l by (intro nth_equalityI) (auto simp: less_Suc_eq numeral_2_eq_2)
  then have "mu = [of_real (norm_sq x), of_real (Re (inner x (mat_vec H x)))]"
    using m0 m1 inner_self [of x] inner_hermitian_real [OF assms] by simp
  then show ?thesis using r by simp
qed

theorem get_moments_base_case_witness:
  "hermitian [[1 / 2, \<i> / 4], [- \<i> / 4, - 1 / 2]] \<and>
   length [1, \<i>] = length [[1 / 2, \<i> / 4], [- \<i> / 4, - 1 / 2]] \<and>
   get_moments_probe [[1 / 2, \<i> / 4], [- \<i> / 4, - 1 / 2]] 2 [1, \<i>] =
     Inr [of_real (norm_sq [1, \<i>]),
          of_real (Re (inner [1, \<i>] (mat_vec [[1 / 2, \<i> / 4], [- \<i> / 4, - 1 / 2]] [1, \<i>])))] \<and>
   [1..<2 div 2] = ([] :: nat list) \<and>
   moments_loop [[1 / 2, \<i> / 4], [- \<i> / 4, - 1 / 2]] [1..<2 div 2] ([], [], []) = Inr ([], [], [])"
proof -
  have h: "hermitian [[1 / 2, \<i> / 4], [- \<i> / 4, - 1 / 2]]"
    by (simp add: hermitian_def square_def upt_rec)
  have l: "length [1, \<i>] = length [[1 / 2, \<i> / 4], [- \<i> / 4, - 1 / 2]]"
    by simp
  show ?thesis using h l get_moments_base_case [OF h l, of "([], [], [])"] by simp
qed

text \<open>
  C1. For a Hermitian matrix \<open>H\<close>, a probe \<open>x\<close> of matching length and an even
  \<open>num_moments \<ge> 2\<close>, the sequence that the doubling recursion of \<^verbatim>\<open>get_moments\<close>
  returns is the sequence of the direct evaluations \<open>conj(x)\<cdot>T\<^sub>k(H)\<cdot>x\<close>,
  \<open>k = 0, \<dots>, num_moments - 1\<close>. The equality is exact, in exact arithmetic.
\<close>

theorem doubling_recursion_is_direct_evaluation:
  assumes "hermitian H" and "length x = length H" and "even N" and "2 \<le> N"
  shows "get_moments_probe H N x = Inr (map (direct_moment H x) [0..<N])"
proof -
  let ?t = "cheb_vec H x"
  have sq: "square (length H) H" using assms(1) by (simp add: hermitian_def)
  have dm: "direct_moment H x k = inner x (?t k)" for k
    using sq assms(2) by (rule direct_moment_cheb_vec)
  from get_moments_probe_run [OF sq assms(2,4)]
  obtain mu where r: "get_moments_probe H N x = Inr mu" and l: "length mu = N"
    and m0: "mu ! 0 = inner x x" and m1: "mu ! 1 = inner x (mat_vec H x)"
    and vals: "\<forall>j. 1 \<le> j \<and> j < N div 2 \<longrightarrow>
                 mu ! (2 * j) = 2 * inner (?t j) (?t j) - inner x x \<and>
                 mu ! (2 * j + 1) = 2 * inner (?t (j + 1)) (?t j) - inner x (mat_vec H x)"
    by blast
  have prod: "2 * inner (?t m) (?t k) = inner x (?t (m + k)) + inner x (?t (dist_nat m k))" for m k
    using cheb_product [OF assms(1) refl assms(2)] .
  have entry: "mu ! k = direct_moment H x k" if k: "k < N" for k
  proof -
    define j where "j = k div 2"
    have jN: "j < N div 2" using k assms(3) unfolding j_def by (auto elim!: evenE)
    show ?thesis
    proof (cases "j = 0")
      case True
      then have "k = 0 \<or> k = 1" unfolding j_def by (simp add: div_eq_0_iff) linarith
      then show ?thesis using m0 m1 by (auto simp: dm)
    next
      case False
      then have j1: "1 \<le> j \<and> j < N div 2" using jN by simp
      show ?thesis
      proof (cases "even k")
        case True
        then have kj: "k = 2 * j" unfolding j_def by simp
        have "mu ! (2 * j) = 2 * inner (?t j) (?t j) - inner x x" using vals j1 by blast
        also have "\<dots> = inner x (?t (j + j))"
          using prod [of j j] by (simp add: dist_nat_def del: cheb_vec.simps(3))
        finally show ?thesis unfolding kj dm by (simp add: mult_2 del: cheb_vec.simps)
      next
        case False
        then have kj: "k = 2 * j + 1" unfolding j_def by (simp add: odd_two_times_div_two_succ)
        have "mu ! (2 * j + 1) = 2 * inner (?t (j + 1)) (?t j) - inner x (mat_vec H x)"
          using vals j1 by blast
        also have "\<dots> = inner x (?t (j + 1 + j))"
          using prod [of "j + 1" j] by (simp add: dist_nat_def del: cheb_vec.simps(3))
        finally show ?thesis unfolding kj dm by (simp add: mult_2 del: cheb_vec.simps)
      qed
    qed
  qed
  have "mu = map (direct_moment H x) [0..<N]"
    using l entry by (intro nth_equalityI) simp_all
  then show ?thesis using r by simp
qed

theorem doubling_recursion_is_direct_evaluation_witness:
  "hermitian [[1 / 2, \<i> / 4], [- \<i> / 4, - 1 / 2]] \<and>
   length [1, \<i>] = length [[1 / 2, \<i> / 4], [- \<i> / 4, - 1 / 2]] \<and>
   even (4 :: nat) \<and> (2 :: nat) \<le> 4 \<and>
   get_moments_probe [[1 / 2, \<i> / 4], [- \<i> / 4, - 1 / 2]] 4 [1, \<i>] =
     Inr (map (direct_moment [[1 / 2, \<i> / 4], [- \<i> / 4, - 1 / 2]] [1, \<i>]) [0..<4])"
proof -
  have h: "hermitian [[1 / 2, \<i> / 4], [- \<i> / 4, - 1 / 2]]"
    by (simp add: hermitian_def square_def upt_rec)
  have l: "length [1, \<i>] = length [[1 / 2, \<i> / 4], [- \<i> / 4, - 1 / 2]]"
    by simp
  have e: "even (4 :: nat)" "(2 :: nat) \<le> 4" by simp_all
  show ?thesis
    using h l e doubling_recursion_is_direct_evaluation [OF h l e] by blast
qed

section \<open>Running the reconstruction\<close>

lemma foldl_map2_add:
  fixes acc :: "real list"
  shows "list_all (\<lambda>r. length r = length acc) rows \<Longrightarrow>
         length (foldl (\<lambda>acc row. map2 (+) acc row) acc rows) = length acc \<and>
         (\<forall>k<length acc. foldl (\<lambda>acc row. map2 (+) acc row) acc rows ! k =
                           acc ! k + (\<Sum>row\<leftarrow>rows. row ! k))"
proof (induction rows arbitrary: acc)
  case Nil
  then show ?case by simp
next
  case (Cons r rows)
  have lr: "length r = length acc" using Cons.prems by simp
  have l: "length (map2 (+) acc r) = length acc" using lr by simp
  have "list_all (\<lambda>q. length q = length (map2 (+) acc r)) rows"
    using Cons.prems l by simp
  from Cons.IH [OF this] l lr show ?case by (simp add: add.assoc)
qed

lemma sum_axis0_rows:
  assumes ne: "rows \<noteq> []" and all: "list_all (\<lambda>r. length r = K) rows"
  shows "length (sum_axis0 rows) = K"
    and "k < K \<Longrightarrow> sum_axis0 rows ! k = (\<Sum>row\<leftarrow>rows. row ! k)"
proof -
  obtain r rs where rows: "rows = r # rs" using ne by (cases rows) simp_all
  have lr: "length r = K" and rest: "list_all (\<lambda>q. length q = length r) rs"
    using all rows by simp_all
  from foldl_map2_add [OF rest] lr
  show "length (sum_axis0 rows) = K"
    and "k < K \<Longrightarrow> sum_axis0 rows ! k = (\<Sum>row\<leftarrow>rows. row ! k)"
    by (simp_all add: sum_axis0_def rows)
qed

lemma averaged_moments:
  assumes ne: "moments \<noteq> []" and all: "list_all (\<lambda>r. length r = K) moments"
  shows "map (\<lambda>m. m / real nv / real dm) (sum_axis0 (map (map Re) moments)) =
         map (\<lambda>k. (\<Sum>row\<leftarrow>moments. Re (row ! k)) / real nv / real dm) [0..<K]"
proof (rule nth_equalityI)
  have ne': "map (map Re) moments \<noteq> []" using ne by simp
  have all': "list_all (\<lambda>r. length r = K) (map (map Re) moments)"
    using all by (simp add: list_all_iff)
  show "length (map (\<lambda>m. m / real nv / real dm) (sum_axis0 (map (map Re) moments))) =
        length (map (\<lambda>k. (\<Sum>row\<leftarrow>moments. Re (row ! k)) / real nv / real dm) [0..<K])"
    using sum_axis0_rows(1) [OF ne' all'] by simp
  fix k assume "k < length (map (\<lambda>m. m / real nv / real dm) (sum_axis0 (map (map Re) moments)))"
  then have k: "k < K" using sum_axis0_rows(1) [OF ne' all'] by simp
  have "(\<Sum>row\<leftarrow>map (map Re) moments. row ! k) = (\<Sum>row\<leftarrow>moments. Re (row ! k))"
  proof -
    have "\<forall>row\<in>set moments. map Re row ! k = Re (row ! k)"
      using all k by (simp add: list_all_iff)
    then show ?thesis by (simp add: comp_def cong: map_cong)
  qed
  then show "map (\<lambda>m. m / real nv / real dm) (sum_axis0 (map (map Re) moments)) ! k =
             map (\<lambda>k. (\<Sum>row\<leftarrow>moments. Re (row ! k)) / real nv / real dm) [0..<K] ! k"
    using k sum_axis0_rows [OF ne' all'] by simp
qed

lemma ek_nodes_nat:
  "ek_nodes (int P) = map (\<lambda>j. cos (pi * (real j + 1 / 2) / real P)) [0..<P]"
  by (simp add: ek_nodes_def arange_def comp_def)

lemma length_ek_nodes [simp]: "length (ek_nodes n) = nat n"
  by (simp add: ek_nodes_def arange_def)

lemma length_gk_weights [simp]: "length (gk_weights ek) = length ek"
  by (simp add: gk_weights_def)



lemma apply_kernel_run:
  assumes xp: "0 \<le> extra_points" and ne: "moments \<noteq> []"
    and rows: "list_all (\<lambda>r. length r = num_moments) moments"
    and kern: "case kern of None \<Rightarrow> True | Some w \<Rightarrow> length w = num_moments"
    and dct: "\<forall>xs. length (dct xs) = length xs"
  shows "apply_kernel dct moments kern dimension num_moments num_vecs extra_points =
         Inr (spec_reconstruct dct moments kern dimension num_moments num_vecs (nat extra_points))"
proof -
  define e where "e = nat extra_points"
  define P where "P = num_moments + e"
  define averaged where
    "averaged = map (\<lambda>k. (\<Sum>row\<leftarrow>moments. Re (row ! k)) / real num_vecs / real dimension) [0..<num_moments]"
  define damped where
    "damped = (case kern of None \<Rightarrow> averaged | Some w \<Rightarrow> map (\<lambda>k. averaged ! k * w ! k) [0..<num_moments])"
  define smooth where "smooth = dct (damped @ replicate e 0)"
  have np: "extra_points + int num_moments = int P" using xp by (simp add: P_def e_def)
  have la: "length averaged = num_moments" by (simp add: averaged_def)
  have ld: "length damped = num_moments" by (cases kern) (simp_all add: damped_def la)
  have ls: "length smooth = P" using dct by (simp add: smooth_def ld P_def)
  have m2: "map (\<lambda>m. m / real num_vecs / real dimension) (sum_axis0 (map (map Re) moments)) = averaged"
    unfolding averaged_def using ne rows by (rule averaged_moments)
  have m3: "(case kern of None \<Rightarrow> Inr averaged | Some w \<Rightarrow> broadcast2 (*) averaged w) = Inr damped"
  proof (cases kern)
    case None
    then show ?thesis by (simp add: damped_def)
  next
    case (Some w)
    then have lw: "length w = num_moments" using kern by simp
    have "map2 (*) averaged w = map (\<lambda>k. averaged ! k * w ! k) [0..<num_moments]"
      using la lw by (intro nth_equalityI) simp_all
    then show ?thesis using Some la lw by (simp add: damped_def broadcast2_same)
  qed
  have z: "zeros (int P) = Inr (replicate P 0)" by (simp add: zeros_def)
  have sl: "set_slice (replicate P 0) num_moments damped = Inr (damped @ replicate e 0)"
    using ld by (simp add: set_slice_def P_def)
  have dv: "broadcast2 (/) smooth (gk_weights (ek_nodes (int P))) =
            Inr (map (\<lambda>j. smooth ! j / (pi * sqrt (1 - (ek_nodes (int P) ! j) ^ 2))) [0..<P])"
  proof -
    have "map2 (/) smooth (gk_weights (ek_nodes (int P))) =
          map (\<lambda>j. smooth ! j / (pi * sqrt (1 - (ek_nodes (int P) ! j) ^ 2))) [0..<P]"
      using ls by (intro nth_equalityI) (simp_all add: gk_weights_def)
    then show ?thesis using ls by (simp add: broadcast2_same)
  qed
  have code: "apply_kernel dct moments kern dimension num_moments num_vecs extra_points =
              Inr (ek_nodes (int P),
                   map (\<lambda>j. smooth ! j / (pi * sqrt (1 - (ek_nodes (int P) ! j) ^ 2))) [0..<P])"
    unfolding apply_kernel_def Let_def m2 np m3 ebind_Inr z sl
    using dv by (simp add: smooth_def)
  have spec: "spec_reconstruct dct moments kern dimension num_moments num_vecs e =
              (ek_nodes (int P),
               map (\<lambda>j. smooth ! j / (pi * sqrt (1 - (ek_nodes (int P) ! j) ^ 2))) [0..<P])"
    unfolding spec_reconstruct_def Let_def
    unfolding averaged_def [symmetric]
    unfolding damped_def [symmetric]
    unfolding smooth_def [symmetric] P_def [symmetric]
    unfolding ek_nodes_nat [symmetric]
    by (rule refl)
  show ?thesis unfolding code spec e_def [symmetric] ..
qed

section \<open>Failures of the reconstruction, and the examples evaluated\<close>

lemma apply_kernel_ek:
  "apply_kernel dct moments kern dimension num_moments num_vecs extra_points = Inr (ek, rho) \<Longrightarrow>
   ek = ek_nodes (extra_points + int num_moments)"
  by (auto simp: apply_kernel_def Let_def ebind_def split: sum.splits)


lemma broadcast2_result:
  "broadcast2 f xs ys = Inl ValueError \<or>
   (\<exists>zs. broadcast2 f xs ys = Inr zs \<and> (length xs \<noteq> 1 \<longrightarrow> length zs = length xs))"
  by (auto simp: broadcast2_def)

lemma apply_kernel_negative_extra:
  assumes xp: "extra_points < 0" and ne: "moments \<noteq> []"
    and rows: "list_all (\<lambda>r. length r = num_moments) moments" and K: "num_moments \<noteq> 1"
  shows "apply_kernel dct moments kern dimension num_moments num_vecs extra_points = Inl ValueError"
proof -
  define m2 where
    "m2 = map (\<lambda>m. m / real num_vecs / real dimension) (sum_axis0 (map (map Re) moments))"
  have l2: "length m2 = num_moments"
    unfolding m2_def averaged_moments [OF ne rows] by simp
  have tail: "ebind (zeros (extra_points + int num_moments))
                (\<lambda>mu_ext0. ebind (set_slice mu_ext0 num_moments m3) F) = Inl ValueError"
    if "length m3 = num_moments" for m3 and F :: "real list \<Rightarrow> error + real list \<times> real list"
  proof (cases "extra_points + int num_moments < 0")
    case True
    then show ?thesis by (simp add: zeros_def)
  next
    case False
    have "nat (extra_points + int num_moments) < num_moments" using xp False by linarith
    then have "set_slice (replicate (nat (extra_points + int num_moments)) 0) num_moments m3 =
               Inl ValueError"
      using that K by (simp add: set_slice_def min_def)
    then show ?thesis using False by (simp add: zeros_def)
  qed
  show ?thesis
  proof (cases kern)
    case None
    then show ?thesis
      unfolding apply_kernel_def Let_def m2_def [symmetric] using tail [OF l2] by simp
  next
    case (Some w)
    from broadcast2_result [of "(*)" m2 w] show ?thesis
    proof
      assume "broadcast2 (*) m2 w = Inl ValueError"
      then show ?thesis
        unfolding apply_kernel_def Let_def m2_def [symmetric] using Some by simp
    next
      assume "\<exists>zs. broadcast2 (*) m2 w = Inr zs \<and> (length m2 \<noteq> 1 \<longrightarrow> length zs = length m2)"
      then obtain zs where b: "broadcast2 (*) m2 w = Inr zs" and lz: "length zs = num_moments"
        using l2 K by auto
      show ?thesis
        unfolding apply_kernel_def Let_def m2_def [symmetric] using Some b tail [OF lz] by simp
    qed
  qed
qed

lemma cos_3pi4: "cos (pi * 3 / 4) = - (sqrt 2 / 2)"
proof -
  have "cos (pi - pi / 4) = - cos (pi / 4)" by (rule cos_pi_minus)
  moreover have "pi - pi / 4 = pi * 3 / 4" by simp
  ultimately show ?thesis by (simp add: cos_45)
qed

lemma ek_nodes_two: "ek_nodes 2 = [sqrt 2 / 2, - (sqrt 2 / 2)]"
  by (simp add: ek_nodes_def arange_def upt_rec numeral_2_eq_2 cos_45 cos_3pi4)

lemma example_moments: "get_moments (\<lambda>k. 0) [[0]] 2 (Suc 0) = Inr [1, 0]"
proof -
  have "random_phase_probe (Suc 0) (\<lambda>k. 0) = [1]" by (simp add: random_phase_probe_def)
  moreover have "get_moments_probe [[0]] 2 [1] = Inr [1, 0]" by code_simp
  ultimately show ?thesis by (simp add: get_moments_def)
qed

lemma example_apply_kernel:
  "apply_kernel dct3_example [[1, 0]] (Some (replicate 2 1)) (Suc 0) 2 (Suc 0) 0 =
   Inr ([sqrt 2 / 2, - (sqrt 2 / 2)], [1 / (pi * sqrt (1 / 2)), 1 / (pi * sqrt (1 / 2))])"
proof -
  have r2: "replicate 2 (1 :: real) = [1, 1]" by (simp add: numeral_2_eq_2)
  have s0: "sum_axis0 [[1, 0]] = [1, 0]" by (simp add: sum_axis0_def)
  have s2: "broadcast2 (*) [1, 0] [1, 1 :: real] = Inr [1, 0]" by (simp add: broadcast2_def)
  have s3: "zeros 2 = Inr [0, 0]" by (simp add: zeros_def numeral_2_eq_2)
  have s4: "set_slice [0, 0] 2 [1, 0] = Inr [1, 0]" by (simp add: set_slice_def)
  have s5: "dct3_example [1, 0] = [1, 1]" by (simp add: dct3_example_def upt_rec numeral_2_eq_2)
  have s7: "gk_weights [sqrt 2 / 2, - (sqrt 2 / 2)] = [pi * sqrt (1 / 2), pi * sqrt (1 / 2)]"
    by (simp add: gk_weights_def power_divide)
  have s8: "broadcast2 (/) [1, 1] [pi * sqrt (1 / 2), pi * sqrt (1 / 2)] =
            Inr [1 / (pi * sqrt (1 / 2)), 1 / (pi * sqrt (1 / 2))]"
    by (simp add: broadcast2_def)
  show ?thesis
    by (simp add: apply_kernel_def r2 s0 s2 s3 s4 s5 ek_nodes_two s7 s8)
qed

lemma example_cupykpm:
  "cupykpm example_linalg example_cupyutils (\<lambda>d z. z) (\<lambda>i k. 0)
     \<lparr>data_is_complex = False, entries = [[1]]\<rparr> 2 1 0 32 (Some (- 1)) (Some 3) 0 =
   Inr ([1 / (pi * sqrt (1 / 2)) / 2, 1 / (pi * sqrt (1 / 2)) / 2],
        [sqrt 2 / 2 * 2 + 1, - (sqrt 2 / 2) * 2 + 1])"
proof -
  have r: "spec_rescale [[1]] (- 1) 3 0 = ([[0]], 2, 1)"
    by (simp add: spec_rescale_def)
  show ?thesis
    by (simp add: cupykpm_def bounds_or_given_def example_linalg_def example_cupyutils_def r
        example_moments example_apply_kernel rescale_kpm_def)
qed

lemma pykpm_returns_abscissas_first:
  assumes "pykpm la tf cast H nm nv xp prec lmin lmax eps dev sw = Inr (first, second)"
    and "rescale_matrix la H (fst (bounds_or_given la H lmin lmax))
           (snd (bounds_or_given la H lmin lmax)) = (H1, a, b)"
  shows "\<exists>m ek rho. tf_apply_kernel tf m (tf_jackson tf nm 32) (length (entries H1)) nm nv xp = Inr (ek, rho) \<and>
                   first = map (\<lambda>e. e * a + b) ek \<and> second = map (\<lambda>r. r / a) rho"
  using assms
  by (auto simp: pykpm_def Let_def ebind_def rescale_kpm_def split_beta split: sum.splits) blast

section \<open>Rounding to binary64\<close>

lemma round_even_int [simp]: "round_even (of_int k) = k"
  by (simp add: round_even_def)

lemma round_even_bounds: "x - 1 / 2 \<le> of_int (round_even x)" "of_int (round_even x) \<le> x + 1 / 2"
  unfolding round_even_def Let_def by (auto; linarith)+

lemma floor_log2_eq:
  assumes "2 powi e \<le> x" "x < 2 powi (e + 1)"
  shows "\<lfloor>log 2 x\<rfloor> = e"
proof -
  have "0 < (2 :: real) powi e" by simp
  then have x: "0 < x" using assms(1) by linarith
  have a: "(2 :: real) powr (of_int e) = 2 powi e"
    by (simp add: powr_real_of_int')
  have b: "(2 :: real) powr (of_int (e + 1)) = 2 powi (e + 1)"
    by (rule powr_real_of_int') simp_all
  have "\<lfloor>log 2 x\<rfloor> = e \<longleftrightarrow> 2 powr (of_int e) \<le> x \<and> x < 2 powr (of_int (e + 1))"
    using x by (intro floor_log_eq_powr_iff) simp_all
  then show ?thesis unfolding a b using assms by blast
qed

lemma round64_exact:
  assumes r: "r = of_int k * 2 powi (e - 52)" and k: "2 ^ 52 \<le> \<bar>k\<bar>" "\<bar>k\<bar> < 2 ^ 53"
    and e: "- 1022 \<le> e" "e \<le> 1023"
  shows "round64 r = Fin r"
proof -
  let ?q = "(2 :: real) powi (e - 52)"
  have q: "0 < ?q" by simp
  have ar: "\<bar>r\<bar> = of_int \<bar>k\<bar> * ?q" unfolding r by (simp add: abs_mult)
  have r0: "r \<noteq> 0" using k r by auto
  have lo: "2 powi e \<le> \<bar>r\<bar>"
  proof -
    have "(2 :: real) powi e = 2 ^ 52 * ?q" by (simp add: power_int_diff)
    also have "\<dots> \<le> of_int \<bar>k\<bar> * ?q"
    proof (rule mult_right_mono)
      show "(2 :: real) ^ 52 \<le> of_int \<bar>k\<bar>" using k(1) by simp
      show "0 \<le> ?q" by simp
    qed
    finally show ?thesis unfolding ar .
  qed
  have hi: "\<bar>r\<bar> < 2 powi (e + 1)"
  proof -
    have "of_int \<bar>k\<bar> * ?q < 2 ^ 53 * ?q"
    proof (rule mult_strict_right_mono)
      show "real_of_int \<bar>k\<bar> < 2 ^ 53" using k(2) by simp
      show "0 < ?q" by simp
    qed
    also have "\<dots> = 2 powi (e + 1)" by (simp add: power_int_diff power_int_add)
    finally show ?thesis unfolding ar .
  qed
  have fl: "\<lfloor>log 2 \<bar>r\<bar>\<rfloor> = e" using lo hi by (rule floor_log2_eq)
  have mx: "max \<lfloor>log 2 \<bar>r\<bar>\<rfloor> (- 1022) = e" using fl e by simp
  have m: "\<bar>r\<bar> / ?q = of_int \<bar>k\<bar>" unfolding ar using q by simp
  have y: "of_int (round_even (\<bar>r\<bar> / ?q)) * ?q = \<bar>r\<bar>"
    by (simp only: m round_even_int) (simp only: ar)
  have fin: "\<not> 2 ^ 1024 \<le> \<bar>r\<bar>"
  proof -
    have "(2 :: real) powi (e + 1) \<le> 2 powi 1024"
      using e by (intro power_int_increasing) simp_all
    then show ?thesis using hi by simp
  qed
  show ?thesis
    unfolding round64_def Let_def mx y using r0 fin by (simp add: sgn_if)
qed

lemma floor_log2_bounds:
  assumes "0 < x"
  shows "2 powi \<lfloor>log 2 x\<rfloor> \<le> x" "x < 2 powi (\<lfloor>log 2 x\<rfloor> + 1)"
proof -
  let ?e = "\<lfloor>log 2 x\<rfloor>"
  have a: "(2 :: real) powr (of_int ?e) = 2 powi ?e"
    by (simp add: powr_real_of_int')
  have b: "(2 :: real) powr (of_int (?e + 1)) = 2 powi (?e + 1)"
    by (rule powr_real_of_int') simp_all
  have "\<lfloor>log 2 x\<rfloor> = ?e \<longleftrightarrow> 2 powr (of_int ?e) \<le> x \<and> x < 2 powr (of_int (?e + 1))"
    using assms by (intro floor_log_eq_powr_iff) simp_all
  then show "2 powi ?e \<le> x" "x < 2 powi (?e + 1)" unfolding a b by blast+
qed

lemma round64_normal:
  assumes lo: "2 powi e \<le> \<bar>r\<bar>" and hi: "\<bar>r\<bar> < 2 powi (e + 1)" and e: "- 1022 \<le> e"
    and m: "round_even (\<bar>r\<bar> / 2 powi (e - 52)) = m"
  shows "round64 r =
         (if (2 :: real) ^ 1024 \<le> of_int m * 2 powi (e - 52) then (if 0 < r then PInf else NInf)
          else Fin (sgn r * (of_int m * 2 powi (e - 52))))"
proof -
  have r0: "r \<noteq> 0"
  proof
    assume "r = 0"
    with lo have "2 powi e \<le> (0 :: real)" by simp
    moreover have "0 < (2 :: real) powi e" by simp
    ultimately show False by linarith
  qed
  have fl: "\<lfloor>log 2 \<bar>r\<bar>\<rfloor> = e" using lo hi by (rule floor_log2_eq)
  have mx: "max \<lfloor>log 2 \<bar>r\<bar>\<rfloor> (- 1022) = e" using fl e by simp
  show ?thesis unfolding round64_def Let_def mx m using r0 by simp
qed

lemma round64_bound:
  fixes k :: nat
  assumes x: "\<bar>x\<bar> < 2 ^ k" and k: "k \<le> 1023"
  shows "\<exists>y. round64 x = Fin y \<and> \<bar>y\<bar> \<le> 2 ^ k"
proof (cases "x = 0")
  case True
  then show ?thesis by (simp add: round64_def)
next
  case False
  define e0 where "e0 = \<lfloor>log 2 \<bar>x\<bar>\<rfloor>"
  define e where "e = max e0 (- 1022)"
  define q where "q = (2 :: real) powi (e - 52)"
  define m where "m = round_even (\<bar>x\<bar> / q)"
  define y where "y = real_of_int m * q"
  have ax: "0 < \<bar>x\<bar>" using False by simp
  have lo: "2 powi e0 \<le> \<bar>x\<bar>" and hi: "\<bar>x\<bar> < 2 powi (e0 + 1)"
    unfolding e0_def using floor_log2_bounds [OF ax] by simp_all
  have q: "0 < q" by (simp add: q_def)
  have "(2 :: real) powi (e0 + 1) \<le> 2 powi (e + 1)"
    by (intro power_int_increasing) (simp_all add: e_def)
  then have hi': "\<bar>x\<bar> < 2 powi (e + 1)" using hi by linarith
  have e53: "(2 :: real) powi (e + 1) = 2 ^ 53 * q"
    by (simp add: q_def power_int_diff power_int_add)
  have "\<bar>x\<bar> / q < 2 ^ 53" using hi' q unfolding e53 by (simp add: field_simps)
  moreover have "real_of_int m \<le> \<bar>x\<bar> / q + 1 / 2"
    unfolding m_def by (rule round_even_bounds)
  ultimately have "real_of_int m < 2 ^ 53 + 1 / 2" by linarith
  then have "real_of_int m < real_of_int (2 ^ 53 + 1)" by simp
  then have "m < 2 ^ 53 + 1" by (simp only: of_int_less_iff)
  then have m_le: "m \<le> 2 ^ 53" by simp
  have "\<bar>x\<bar> / q - 1 / 2 \<le> real_of_int m"
    unfolding m_def by (rule round_even_bounds)
  moreover have "0 \<le> \<bar>x\<bar> / q" using q by simp
  ultimately have "real_of_int (- 1) < real_of_int m" by simp
  then have m_ge: "0 \<le> m" by simp
  have y0: "0 \<le> y" using m_ge q by (simp add: y_def)
  have "y \<le> 2 ^ 53 * q"
    unfolding y_def using m_le q by (intro mult_right_mono) simp_all
  then have y_le: "y \<le> 2 powi (e + 1)" unfolding e53 .
  have ek: "e + 1 \<le> int k"
  proof (cases "e0 \<le> - 1022")
    case True
    then show ?thesis by (simp add: e_def)
  next
    case False
    then have ee: "e = e0" by (simp add: e_def)
    have lt: "(2 :: real) powi e0 < 2 ^ k" using lo x by linarith
    have "e0 < int k"
    proof (rule ccontr)
      assume "\<not> e0 < int k"
      then have "int k \<le> e0" by simp
      then have "(2 :: real) powi (int k) \<le> 2 powi e0"
        by (intro power_int_increasing) simp_all
      then have "(2 :: real) ^ k \<le> 2 powi e0" by simp
      with lt show False by linarith
    qed
    then show ?thesis using ee by simp
  qed
  have "(2 :: real) powi (e + 1) \<le> 2 powi (int k)"
    using ek by (intro power_int_increasing) simp_all
  then have yk: "y \<le> 2 ^ k" using y_le by simp
  have "(2 :: real) ^ k \<le> 2 ^ 1023" using k by (intro power_increasing) simp_all
  then have nf: "\<not> 2 ^ 1024 \<le> y" using yk by simp
  have "round64 x = Fin (sgn x * y)"
    unfolding round64_def Let_def e0_def [symmetric] e_def [symmetric] q_def [symmetric]
      m_def [symmetric] y_def [symmetric]
    using False nf by simp
  moreover have "\<bar>sgn x * y\<bar> \<le> 2 ^ k" using yk y0 False by (simp add: abs_mult)
  ultimately show ?thesis by blast
qed


section \<open>The binary64 nodes, weights and rescaling evaluated\<close>

lemma r_one: "round64 1 = Fin 1"
  by (rule round64_exact [of 1 "2 ^ 52" 0, simplified])

lemma r_half: "round64 (1 / 2) = Fin (1 / 2)"
  by (rule round64_exact [of "1 / 2" "2 ^ 52" "- 1"]) (simp_all add: power_int_minus)









lemma overflow_product: "round64 (2 ^ 1023 * 2) = PInf"
proof -
  have lo: "2 powi 1024 \<le> \<bar>2 ^ 1023 * 2 :: real\<bar>" by simp
  have hi: "\<bar>2 ^ 1023 * 2 :: real\<bar> < 2 powi (1024 + 1)" by simp
  have q: "\<bar>2 ^ 1023 * 2 :: real\<bar> / 2 powi (1024 - 52) = of_int (2 ^ 52)" by simp
  have m: "round_even (\<bar>2 ^ 1023 * 2 :: real\<bar> / 2 powi (1024 - 52)) = 2 ^ 52"
    unfolding q by (rule round_even_int)
  show ?thesis using round64_normal [OF lo hi _ m] by simp
qed

lemma r_49th: "round64 (1 / 49) = Fin (5882252574524729 / 2 ^ 58)"
proof -
  have lo: "2 powi (- 6) \<le> \<bar>1 / 49 :: real\<bar>" by (simp add: power_int_minus)
  have hi: "\<bar>1 / 49 :: real\<bar> < 2 powi (- 6 + 1)" by (simp add: power_int_minus)
  have q: "\<bar>1 / 49 :: real\<bar> / 2 powi (- 6 - 52) = 2 ^ 58 / 49"
    by (simp add: power_int_minus)
  have m: "round_even (\<bar>1 / 49 :: real\<bar> / 2 powi (- 6 - 52)) = 5882252574524729"
    unfolding q by (simp add: round_even_def)
  show ?thesis using round64_normal [OF lo hi _ m] by (simp add: power_int_minus)
qed

lemma r_back: "round64 (5882252574524729 / 2 ^ 58 * 49) = Fin (1 - 1 / 2 ^ 53)"
proof -
  have lo: "2 powi (- 1) \<le> \<bar>5882252574524729 / 2 ^ 58 * 49 :: real\<bar>" by (simp add: power_int_minus)
  have hi: "\<bar>5882252574524729 / 2 ^ 58 * 49 :: real\<bar> < 2 powi (- 1 + 1)" by simp
  have q: "\<bar>5882252574524729 / 2 ^ 58 * 49 :: real\<bar> / 2 powi (- 1 - 52) = 288230376151711721 / 32"
    by (simp add: power_int_minus)
  have m: "round_even (\<bar>5882252574524729 / 2 ^ 58 * 49 :: real\<bar> / 2 powi (- 1 - 52)) = 2 ^ 53 - 1"
    unfolding q by (simp add: round_even_def)
  show ?thesis using round64_normal [OF lo hi _ m] by (simp add: power_int_minus)
qed

lemma r_below_one: "round64 (1 - 1 / 2 ^ 53 + 0) = Fin (1 - 1 / 2 ^ 53)"
proof -
  have "round64 (1 - 1 / 2 ^ 53) = Fin (1 - 1 / 2 ^ 53)"
    by (rule round64_exact [of _ "2 ^ 53 - 1" "- 1"]) (simp_all add: power_int_minus)
  then show ?thesis by simp
qed

lemma overflow_example:
  "rescale_kpm_f64 [Fin (2 ^ 1023)] [Fin 1] (Fin 2) (Fin 0) = ([PInf], [Fin (1 / 2)])"
  by (simp only: rescale_kpm_f64_def Let_def list.map fmul.simps fdiv.simps fadd.simps
      overflow_product r_half) simp

lemma round_trip_example:
  "fst (rescale_kpm_f64 (rescale_abscissas_f64 [Fin 1] (Fin 49) (Fin 0)) [] (Fin 49) (Fin 0)) =
   [Fin (1 - 1 / 2 ^ 53)]"
proof -
  have a: "fsub (Fin 1) (Fin 0) = Fin 1" by (simp add: fsub_def r_one)
  have nz: "((49 :: real) = 0) = False" by simp
  have b: "fdiv (Fin 1) (Fin 49) = Fin (5882252574524729 / 2 ^ 58)"
    by (simp only: fdiv.simps nz if_False r_49th)
  have c: "fmul (Fin (5882252574524729 / 2 ^ 58)) (Fin 49) = Fin (1 - 1 / 2 ^ 53)"
    by (simp only: fmul.simps r_back)
  have d: "fadd (Fin (1 - 1 / 2 ^ 53)) (Fin 0) = Fin (1 - 1 / 2 ^ 53)"
    by (simp only: fadd.simps r_below_one)
  show ?thesis
    by (simp only: rescale_kpm_f64_def rescale_abscissas_f64_def Let_def list.map fst_conv a b c d)
qed

lemma rescale_kpm_f64_finite:
  assumes a: "sa \<noteq> 0"
    and e: "\<forall>e\<in>set es. \<bar>e * sa\<bar> < 2 ^ 1022" and b: "\<bar>sb\<bar> < 2 ^ 1022"
    and r: "\<forall>r\<in>set rs. \<bar>r / sa\<bar> < 2 ^ 1023"
  shows "list_all is_finite (fst (rescale_kpm_f64 (map Fin es) (map Fin rs) (Fin sa) (Fin sb)))"
    and "list_all is_finite (snd (rescale_kpm_f64 (map Fin es) (map Fin rs) (Fin sa) (Fin sb)))"
proof -
  have one: "is_finite (fadd (fmul (Fin x) (Fin sa)) (Fin sb))" if "x \<in> set es" for x
  proof -
    have "\<bar>x * sa\<bar> < 2 ^ 1022" using e that by blast
    from round64_bound [OF this] obtain y where y: "round64 (x * sa) = Fin y" "\<bar>y\<bar> \<le> 2 ^ 1022"
      by auto
    have "\<bar>y + sb\<bar> < 2 ^ 1023" using y(2) b by (simp add: abs_if split: if_splits)
    from round64_bound [OF this] obtain z where "round64 (y + sb) = Fin z" by auto
    then show ?thesis using y(1) by simp
  qed
  have two: "is_finite (fdiv (Fin x) (Fin sa))" if "x \<in> set rs" for x
  proof -
    have "\<bar>x / sa\<bar> < 2 ^ 1023" using r that by blast
    from round64_bound [OF this] obtain y where "round64 (x / sa) = Fin y" by auto
    then show ?thesis using a by simp
  qed
  show "list_all is_finite (fst (rescale_kpm_f64 (map Fin es) (map Fin rs) (Fin sa) (Fin sb)))"
    using one by (simp add: rescale_kpm_f64_def list_all_iff)
  show "list_all is_finite (snd (rescale_kpm_f64 (map Fin es) (map Fin rs) (Fin sa) (Fin sb)))"
    using two a by (simp add: rescale_kpm_f64_def list_all_iff)
qed











section \<open>The reconstruction, the rescaling inverse and the pipelines: results\<close>

text \<open>
  C2. For a non-empty batch of moment rows of \<open>num_moments\<close> entries each, a kernel of
  \<open>num_moments\<close> weights or none, \<open>extra_points \<ge> 0\<close>, nonzero divisors \<open>num_vecs\<close> and
  \<open>dimension\<close>, and a length-preserving transform, \<^verbatim>\<open>apply_kernel\<close> returns what the
  specification describes: the real parts summed over the probes and divided by
  \<open>num_vecs\<close> and by \<open>dimension\<close>, multiplied entry by entry with the kernel when there is
  one, padded with zeros to \<open>num_points = num_moments + extra_points\<close>, transformed, and
  divided by \<open>\<pi> sqrt (1 - ek[j]\<^sup>2)\<close> at the abscissas \<open>ek[j] = cos (\<pi> (j + 1/2) / num_points)\<close>,
  \<open>j = 0, \<dots>, num_points - 1\<close>.
\<close>

theorem apply_kernel_is_spec_reconstruct:
  assumes "0 \<le> extra_points" and "moments \<noteq> []"
    and "list_all (\<lambda>r. length r = num_moments) moments"
    and "case kern of None \<Rightarrow> True | Some w \<Rightarrow> length w = num_moments"
    and "0 < num_vecs" and "0 < dimension"
    and "\<forall>xs. length (dct xs) = length xs"
  shows "apply_kernel dct moments kern dimension num_moments num_vecs extra_points =
         Inr (spec_reconstruct dct moments kern dimension num_moments num_vecs (nat extra_points))"
  using assms(1-4,7) by (rule apply_kernel_run)

theorem apply_kernel_is_spec_reconstruct_witness:
  "(0 :: int) \<le> 1 \<and> [[1, \<i>], [0, 1 / 2]] \<noteq> ([] :: complex list list) \<and>
   list_all (\<lambda>r. length r = 2) [[1, \<i>], [0, 1 / 2 :: complex]] \<and>
   (case Some [1, 1 / 2 :: real] of None \<Rightarrow> True | Some w \<Rightarrow> length w = 2) \<and>
   (0 :: nat) < 2 \<and> (0 :: nat) < 3 \<and> (\<forall>xs. length (dct3_example xs) = length xs) \<and>
   apply_kernel dct3_example [[1, \<i>], [0, 1 / 2]] (Some [1, 1 / 2]) 3 2 2 1 =
     Inr (spec_reconstruct dct3_example [[1, \<i>], [0, 1 / 2]] (Some [1, 1 / 2]) 3 2 2 (nat 1))"
proof -
  have h: "(0 :: int) \<le> 1" "[[1, \<i>], [0, 1 / 2]] \<noteq> ([] :: complex list list)"
    "list_all (\<lambda>r. length r = 2) [[1, \<i>], [0, 1 / 2 :: complex]]"
    "case Some [1, 1 / 2 :: real] of None \<Rightarrow> True | Some w \<Rightarrow> length w = 2"
    "(0 :: nat) < 2" "(0 :: nat) < 3" "\<forall>xs. length (dct3_example xs) = length xs"
    by (simp_all add: dct3_example_def)
  from apply_kernel_is_spec_reconstruct [OF h] h show ?thesis by blast
qed




text \<open>
  C3, as the code has it. \<^verbatim>\<open>rescale_kpm\<close> returns the pair
  \<open>(ek \<cdot> scale_a + scale_b, rho / scale_a)\<close>, entry by entry, each operation rounded to
  binary64, and its result depends on its four arguments only. For finite inputs and
  \<open>scale_a \<noteq> 0\<close> the outputs are finite when the exact products \<open>ek \<cdot> scale_a\<close> and \<open>scale_b\<close>
  are below \<open>2\<^bsup>1022\<^esup>\<close> and the exact quotients \<open>rho / scale_a\<close> below \<open>2\<^bsup>1023\<^esup>\<close> in magnitude.
  In exact arithmetic and for \<open>scale_a \<noteq> 0\<close>, applied to the forward rescaling
  \<open>(ek - scale_b) / scale_a\<close> of the abscissas it gives \<open>ek\<close> back.
\<close>

theorem rescale_kpm_contract:
  "rescale_kpm_f64 ek64 rho64 a64 b64 =
     (map (\<lambda>e. fadd (fmul e a64) b64) ek64, map (\<lambda>r. fdiv r a64) rho64) \<and>
   (sa \<noteq> 0 \<and> list_all (\<lambda>e. \<bar>e * sa\<bar> < 2 ^ 1022) es \<and> \<bar>sb\<bar> < 2 ^ 1022 \<and>
    list_all (\<lambda>r. \<bar>r / sa\<bar> < 2 ^ 1023) rs \<longrightarrow>
      list_all is_finite (fst (rescale_kpm_f64 (map Fin es) (map Fin rs) (Fin sa) (Fin sb))) \<and>
      list_all is_finite (snd (rescale_kpm_f64 (map Fin es) (map Fin rs) (Fin sa) (Fin sb)))) \<and>
   (scale_a \<noteq> 0 \<longrightarrow>
      fst (rescale_kpm (rescale_abscissas ek scale_a scale_b) rho scale_a scale_b) = ek)"
proof (intro conjI impI)
  show "rescale_kpm_f64 ek64 rho64 a64 b64 =
        (map (\<lambda>e. fadd (fmul e a64) b64) ek64, map (\<lambda>r. fdiv r a64) rho64)"
    by (simp add: rescale_kpm_f64_def)
next
  assume "sa \<noteq> 0 \<and> list_all (\<lambda>e. \<bar>e * sa\<bar> < 2 ^ 1022) es \<and> \<bar>sb\<bar> < 2 ^ 1022 \<and>
          list_all (\<lambda>r. \<bar>r / sa\<bar> < 2 ^ 1023) rs"
  then have h: "sa \<noteq> 0" "\<forall>e\<in>set es. \<bar>e * sa\<bar> < 2 ^ 1022" "\<bar>sb\<bar> < 2 ^ 1022"
    "\<forall>r\<in>set rs. \<bar>r / sa\<bar> < 2 ^ 1023"
    by (simp_all add: list_all_iff)
  show "list_all is_finite (fst (rescale_kpm_f64 (map Fin es) (map Fin rs) (Fin sa) (Fin sb)))"
    using h by (rule rescale_kpm_f64_finite(1))
  show "list_all is_finite (snd (rescale_kpm_f64 (map Fin es) (map Fin rs) (Fin sa) (Fin sb)))"
    using h by (rule rescale_kpm_f64_finite(2))
next
  assume "scale_a \<noteq> 0"
  then have "map (\<lambda>e. e * scale_a + scale_b) (rescale_abscissas ek scale_a scale_b) = ek"
    by (simp add: rescale_abscissas_def comp_def)
  then show "fst (rescale_kpm (rescale_abscissas ek scale_a scale_b) rho scale_a scale_b) = ek"
    by (simp add: rescale_kpm_def)
qed

theorem rescale_kpm_contract_witness:
  "rescale_kpm_f64 [Fin 1] [Fin 3] (Fin 2) (Fin 1) =
     (map (\<lambda>e. fadd (fmul e (Fin 2)) (Fin 1)) [Fin 1], map (\<lambda>r. fdiv r (Fin 2)) [Fin 3]) \<and>
   ((2 :: real) \<noteq> 0 \<and> list_all (\<lambda>e. \<bar>e * 2\<bar> < 2 ^ 1022) [1 / 2 :: real] \<and> \<bar>1 :: real\<bar> < 2 ^ 1022 \<and>
    list_all (\<lambda>r. \<bar>r / 2\<bar> < 2 ^ 1023) [3 :: real]) \<and>
   list_all is_finite (fst (rescale_kpm_f64 (map Fin [1 / 2]) (map Fin [3]) (Fin 2) (Fin 1))) \<and>
   list_all is_finite (snd (rescale_kpm_f64 (map Fin [1 / 2]) (map Fin [3]) (Fin 2) (Fin 1))) \<and>
   (2 :: real) \<noteq> 0 \<and>
   fst (rescale_kpm (rescale_abscissas [0, 1 / 2] 2 1) [3] 2 1) = [0, 1 / 2]"
proof -
  have h: "(2 :: real) \<noteq> 0 \<and> list_all (\<lambda>e. \<bar>e * 2\<bar> < 2 ^ 1022) [1 / 2 :: real] \<and> \<bar>1 :: real\<bar> < 2 ^ 1022 \<and>
           list_all (\<lambda>r. \<bar>r / 2\<bar> < 2 ^ 1023) [3 :: real]"
    by simp
  have n: "(2 :: real) \<noteq> 0" by simp
  note t = rescale_kpm_contract [of "[Fin 1]" "[Fin 3]" "Fin 2" "Fin 1" 2 "[1 / 2]" 1 "[3]" 2
      "[0, 1 / 2]" 1 "[3]"]
  from t h n show ?thesis by blast
qed

text \<open>
  C3, as the specification has it, fails in the arithmetic of the code. A finite
  input overflows: \<open>2\<^bsup>1023\<^esup> \<cdot> 2\<close> is \<open>inf\<close>. And the round trip is not exact: \<open>1 / 49\<close>, rounded,
  times \<open>49\<close> is \<open>1 - 2\<^bsup>-53\<^esup>\<close>, not \<open>1\<close>.
\<close>

theorem rescale_kpm_overflows_and_rounds:
  "rescale_kpm_f64 [Fin (2 ^ 1023)] [Fin 1] (Fin 2) (Fin 0) = ([PInf], [Fin (1 / 2)]) \<and>
   fst (rescale_kpm_f64 (rescale_abscissas_f64 [Fin 1] (Fin 49) (Fin 0)) [] (Fin 49) (Fin 0)) =
     [Fin (1 - 1 / 2 ^ 53)]"
  using overflow_example round_trip_example by (rule conjI)

text \<open>
  C4, as the code has it. Neither \<^verbatim>\<open>get_moments\<close> nor \<^verbatim>\<open>apply_kernel\<close> checks its
  parameters, and there is no \<^verbatim>\<open>InvalidParameter\<close> error. For an odd \<open>num_moments \<ge> 3\<close> (square
  matrix, probe of matching length) \<^verbatim>\<open>get_moments\<close> returns a sequence of \<open>num_moments\<close>
  entries. For \<open>extra_points < 0\<close>, a non-empty batch of rows of \<open>num_moments \<noteq> 1\<close> entries,
  \<^verbatim>\<open>apply_kernel\<close> fails with the \<^verbatim>\<open>ValueError\<close> of the array library (a negative size, or
  shapes that do not match), after the moments have been summed and averaged.
\<close>

theorem no_parameter_validation:
  "(square n H \<and> length x = n \<and> odd N \<and> 3 \<le> N \<longrightarrow>
      (\<exists>mu. get_moments_probe H N x = Inr mu \<and> length mu = N)) \<and>
   (extra_points < 0 \<and> moments \<noteq> [] \<and> list_all (\<lambda>r. length r = num_moments) moments \<and>
    num_moments \<noteq> 1 \<longrightarrow>
      apply_kernel dct moments kern dimension num_moments num_vecs extra_points = Inl ValueError)"
proof (intro conjI impI)
  assume a: "square n H \<and> length x = n \<and> odd N \<and> 3 \<le> N"
  then have "2 \<le> N" by simp
  with a get_moments_probe_run [of n H x N]
  show "\<exists>mu. get_moments_probe H N x = Inr mu \<and> length mu = N" by blast
next
  assume "extra_points < 0 \<and> moments \<noteq> [] \<and> list_all (\<lambda>r. length r = num_moments) moments \<and>
          num_moments \<noteq> 1"
  then show "apply_kernel dct moments kern dimension num_moments num_vecs extra_points = Inl ValueError"
    by (simp add: apply_kernel_negative_extra)
qed

theorem no_parameter_validation_witness:
  "(square 1 [[0]] \<and> length [1 :: complex] = 1 \<and> odd (5 :: nat) \<and> (3 :: nat) \<le> 5) \<and>
   (\<exists>mu. get_moments_probe [[0]] 5 [1] = Inr mu \<and> length mu = 5) \<and>
   ((- 1 :: int) < 0 \<and> [[1, 0]] \<noteq> ([] :: complex list list) \<and>
    list_all (\<lambda>r. length r = 2) [[1, 0 :: complex]] \<and> (2 :: nat) \<noteq> 1) \<and>
   apply_kernel dct3_example [[1, 0]] (Some [1, 1]) 1 2 1 (- 1) = Inl ValueError"
proof -
  have h1: "square 1 [[0]] \<and> length [1 :: complex] = 1 \<and> odd (5 :: nat) \<and> (3 :: nat) \<le> 5"
    by (simp add: square_def)
  have h2: "(- 1 :: int) < 0 \<and> [[1, 0]] \<noteq> ([] :: complex list list) \<and>
            list_all (\<lambda>r. length r = 2) [[1, 0 :: complex]] \<and> (2 :: nat) \<noteq> 1"
    by simp
  note t = no_parameter_validation [of 1 "[[0]]" "[1]" 5 "- 1" "[[1, 0]]" 2 dct3_example "Some [1, 1]" 1 1]
  from t h1 h2 show ?thesis by blast
qed

text \<open>
  C4, as the specification has it, fails: with \<open>num_moments = 5\<close> the moment computation
  does not fail but returns five moments, the last of them the zero of the
  initialisation.
\<close>

theorem odd_num_moments_is_accepted:
  "get_moments_probe [[0]] 5 [1] = Inr [1, 0, - 1, 0, 0]"
  by code_simp

text \<open>
  C5. The entry point \<^verbatim>\<open>cupykpm\<close> returns the density first and the abscissas second:
  whenever it returns a pair, the second component is the array of the rescaled
  nodes \<open>ek[j] \<cdot> scale_a + scale_b\<close>. (\<^verbatim>\<open>pykpm\<close> returns the abscissas first, see
  \<open>pykpm_returns_abscissas_first\<close>.)
\<close>

theorem cupykpm_returns_density_first:
  assumes "cupykpm la cu cast rand H nm nv xp prec lmin lmax eps = Inr (first, second)"
    and "rescale_cupy la (map (map (cast Complex64)) (entries H))
           (fst (bounds_or_given la H lmin lmax)) (snd (bounds_or_given la H lmin lmax)) eps =
         (H2, a, b)"
  shows "second = map (\<lambda>e. e * a + b) (ek_nodes (xp + int nm))"
  using assms
  by (auto simp: cupykpm_def Let_def ebind_def rescale_kpm_def split_beta
      split: sum.splits dest!: apply_kernel_ek)

theorem cupykpm_returns_density_first_witness:
  "cupykpm example_linalg example_cupyutils (\<lambda>d z. z) (\<lambda>i k. 0)
     \<lparr>data_is_complex = False, entries = [[1]]\<rparr> 2 1 0 32 (Some (- 1)) (Some 3) 0 =
     Inr ([1 / (pi * sqrt (1 / 2)) / 2, 1 / (pi * sqrt (1 / 2)) / 2],
          [sqrt 2 / 2 * 2 + 1, - (sqrt 2 / 2) * 2 + 1]) \<and>
   rescale_cupy example_linalg
     (map (map ((\<lambda>d z. z) Complex64)) (entries \<lparr>data_is_complex = False, entries = [[1]]\<rparr>))
     (fst (bounds_or_given example_linalg \<lparr>data_is_complex = False, entries = [[1]]\<rparr> (Some (- 1)) (Some 3)))
     (snd (bounds_or_given example_linalg \<lparr>data_is_complex = False, entries = [[1]]\<rparr> (Some (- 1)) (Some 3)))
     0 = ([[0]], 2, 1) \<and>
   [sqrt 2 / 2 * 2 + 1, - (sqrt 2 / 2) * 2 + 1] = map (\<lambda>e. e * 2 + 1) (ek_nodes (0 + int 2))"
proof -
  have h2: "rescale_cupy example_linalg
     (map (map ((\<lambda>d z. z) Complex64)) (entries \<lparr>data_is_complex = False, entries = [[1]]\<rparr>))
     (fst (bounds_or_given example_linalg \<lparr>data_is_complex = False, entries = [[1]]\<rparr> (Some (- 1)) (Some 3)))
     (snd (bounds_or_given example_linalg \<lparr>data_is_complex = False, entries = [[1]]\<rparr> (Some (- 1)) (Some 3)))
     0 = ([[0]], 2, 1)"
    by (simp add: example_linalg_def bounds_or_given_def spec_rescale_def)
  show ?thesis
    by (rule conjI [OF example_cupykpm
          conjI [OF h2 cupykpm_returns_density_first [OF example_cupykpm h2]]])
qed

text \<open>
  C8. The parameter \<^verbatim>\<open>epsilon\<close> of \<^verbatim>\<open>pykpm\<close> does not enter the result: two calls that
  differ in \<^verbatim>\<open>epsilon\<close> only (the same collaborators and the same random probes) return
  the same.
\<close>

theorem pykpm_ignores_epsilon:
  "pykpm la tf cast H num_moments num_vecs extra_points precision lmin lmax epsilon1 device swap =
   pykpm la tf cast H num_moments num_vecs extra_points precision lmin lmax epsilon2 device swap"
  by (simp add: pykpm_def)

text \<open>
  C9. The parameter \<^verbatim>\<open>precision\<close> of \<^verbatim>\<open>cupykpm\<close> does not enter the result: the matrix
  is cast to \<^verbatim>\<open>complex64\<close> and the kernel requested at precision 32 whatever
  \<^verbatim>\<open>precision\<close> is, so two calls that differ in \<^verbatim>\<open>precision\<close> only (the same
  collaborators and the same random draws) return the same.
\<close>

theorem cupykpm_ignores_precision:
  "cupykpm la cu cast rand H num_moments num_vecs extra_points precision1 lmin lmax epsilon =
   cupykpm la cu cast rand H num_moments num_vecs extra_points precision2 lmin lmax epsilon"
  by (simp add: cupykpm_def)

end
